theory Spec2Isabelle
  imports Complex_Main
begin

section \<open>Strings as Python sees them (ASCII)\<close>

text \<open>
  A Python \<open>str\<close> is modelled as a \<open>string\<close>. Only ASCII is covered: a character
  above 127 is neither a letter nor white space here, so \<open>upper\<close> leaves it alone.
  \<open>isspace\<close> is the set of ASCII characters for which Python's \<open>str.isspace\<close> holds;
  the regular expression class \<open>\s\<close> and \<open>str.strip()\<close> use the same set:
  tab, line feed, vertical tab, form feed, carriage return (9 to 13), the four
  separators 28 to 31, and the space (32).
\<close>

definition isspace :: "char \<Rightarrow> bool" where
  "isspace c = (let n = (of_char c :: nat) in (9 \<le> n \<and> n \<le> 13) \<or> (28 \<le> n \<and> n \<le> 32))"

definition upper_char :: "char \<Rightarrow> char" where
  "upper_char c =
     (let n = (of_char c :: nat) in if 97 \<le> n \<and> n \<le> 122 then char_of (n - 32) else c)"

text \<open>\<open>s.upper()\<close>\<close>

definition str_upper :: "string \<Rightarrow> string" where
  "str_upper s = map upper_char s"

text \<open>\<open>re.sub(r"\s+", "", s)\<close>: every maximal run of white space is replaced by nothing.\<close>

function re_sub_ws :: "string \<Rightarrow> string" where
  "re_sub_ws [] = []"
| "re_sub_ws (c # cs) =
     (if isspace c then re_sub_ws (dropWhile isspace cs) else c # re_sub_ws cs)"
  by pat_completeness auto
termination
  by (relation "measure length") (auto simp: length_dropWhile_le less_Suc_eq_le)

text \<open>\<open>s.strip()\<close>\<close>

definition str_strip :: "string \<Rightarrow> string" where
  "str_strip s = rev (dropWhile isspace (rev (dropWhile isspace s)))"

text \<open>What \<open>normalize_intldes\<close> does to one string of the series.\<close>

definition normalize_str :: "string \<Rightarrow> string" where
  "normalize_str s = str_strip (re_sub_ws (str_upper s))"

text \<open>\<open>str(i)\<close> for an integer: decimal digits, with a minus sign when negative.\<close>

definition digit_char :: "nat \<Rightarrow> char" where
  "digit_char n = ''0123456789'' ! n"

function str_nat :: "nat \<Rightarrow> string" where
  "str_nat n =
     (if n < 10 then [digit_char n] else str_nat (n div 10) @ [digit_char (n mod 10)])"
  by pat_completeness auto
termination
  by (relation "measure id") auto

definition str_int :: "int \<Rightarrow> string" where
  "str_int i = (if i < 0 then CHR ''-'' # str_nat (nat (- i)) else str_nat (nat i))"

section \<open>Cells, series and data frames\<close>

text \<open>
  A cell of a pandas column: a string, an integer, the float \<open>NaN\<close>, Python's
  \<open>None\<close>, or \<open>pd.NA\<close> (the missing value of the nullable \<open>Int64\<close> type).
  Finite floats that are not integers are not cells of the model; they appear only as
  the \<open>Fractional\<close> result of \<open>pd.to_numeric\<close> below.
\<close>

datatype cell = CStr string | CInt int | CNaN | CNone | CNA

text \<open>\<open>pd.isna\<close> on one cell.\<close>

fun isna :: "cell \<Rightarrow> bool" where
  "isna CNaN = True"
| "isna CNone = True"
| "isna CNA = True"
| "isna (CStr s) = False"
| "isna (CInt i) = False"

text \<open>\<open>str(v)\<close>, which \<open>Series.astype(str)\<close> applies to every element, missing or not.\<close>

fun py_str :: "cell \<Rightarrow> string" where
  "py_str (CStr s) = s"
| "py_str (CInt i) = str_int i"
| "py_str CNaN = ''nan''"
| "py_str CNone = ''None''"
| "py_str CNA = ''<NA>''"

definition astype_str :: "cell list \<Rightarrow> string list" where
  "astype_str series = map py_str series"

text \<open>
  \<open>normalize_intldes\<close> (crosswalk.py, lines 8 to 15):
  \<open>series.astype(str).str.upper().str.replace(r"\s+", "", regex=True).str.strip()\<close>.
\<close>

definition normalize_intldes :: "cell list \<Rightarrow> cell list" where
  "normalize_intldes series =
     map CStr (map str_strip (map re_sub_ws (map str_upper (astype_str series))))"

subsection \<open>Data frames\<close>

text \<open>
  A \<open>pandas.DataFrame\<close> is its list of column labels and its rows, each row a list
  of cells in column order. The frames the code receives are well formed: the labels
  are distinct and every row has one cell per column.
\<close>

record dataframe =
  columns :: "string list"
  rows :: "cell list list"

definition wf_frame :: "dataframe \<Rightarrow> bool" where
  "wf_frame df =
     (distinct (columns df) \<and> list_all (\<lambda>r. length r = length (columns df)) (rows df))"

text \<open>
  The position of a label, and \<open>row[name]\<close>. The position of a label that is not
  a column is the number of columns; the operations below test membership first, as
  pandas raises \<open>KeyError\<close> there.
\<close>

definition col_index :: "string list \<Rightarrow> string \<Rightarrow> nat" where
  "col_index cols name = length (takeWhile (\<lambda>c. c \<noteq> name) cols)"

definition cell_at :: "dataframe \<Rightarrow> cell list \<Rightarrow> string \<Rightarrow> cell" where
  "cell_at df r name = r ! col_index (columns df) name"

text \<open>
\<open>df[name]\<close>: the column as a series.
\<close>

definition get_col :: "dataframe \<Rightarrow> string \<Rightarrow> cell list" where
  "get_col df name = map (\<lambda>r. cell_at df r name) (rows df)"

text \<open>
  \<open>df[name] = vals\<close>: an existing column is overwritten in place, a new one is
  appended on the right. Every use below gives one value per row.
\<close>

definition set_col :: "dataframe \<Rightarrow> string \<Rightarrow> cell list \<Rightarrow> dataframe" where
  "set_col df name vals =
     (if name \<in> set (columns df)
      then df\<lparr>rows := map (\<lambda>(r, v). r[col_index (columns df) name := v]) (zip (rows df) vals)\<rparr>
      else df\<lparr>columns := columns df @ [name],
              rows := map (\<lambda>(r, v). r @ [v]) (zip (rows df) vals)\<rparr>)"

text \<open>
\<open>df.dropna(subset=subs)\<close>: keeps the rows with no missing cell in the given columns.
\<close>

definition dropna :: "string list \<Rightarrow> dataframe \<Rightarrow> dataframe" where
  "dropna subs df =
     df\<lparr>rows := filter (\<lambda>r. list_all (\<lambda>name. \<not> isna (cell_at df r name)) subs)
                     (rows df)\<rparr>"

text \<open>
\<open>df.rename(columns={old: new})\<close>; a label that is absent is ignored.
\<close>

definition rename_col :: "string \<Rightarrow> string \<Rightarrow> dataframe \<Rightarrow> dataframe" where
  "rename_col old new df = df\<lparr>columns := map (\<lambda>c. if c = old then new else c) (columns df)\<rparr>"

text \<open>
  The exceptions of \<open>crosswalk.py\<close> and of the pandas calls it makes. The spec's
  \<open>SchemaError\<close> is the \<open>ValueError\<close> the two functions raise themselves.
\<close>

datatype error = ValueError string | KeyError "string list" | TypeError | MergeError | OverflowError

text \<open>
\<open>df[names]\<close>: projection on a list of labels, \<open>KeyError\<close> naming the absent ones.
\<close>

definition select_cols :: "string list \<Rightarrow> dataframe \<Rightarrow> error + dataframe" where
  "select_cols names df =
     (case filter (\<lambda>name. name \<notin> set (columns df)) names of
        [] \<Rightarrow> Inr \<lparr>columns = names,
                   rows = map (\<lambda>r. map (\<lambda>name. cell_at df r name) names) (rows df)\<rparr>
      | missing \<Rightarrow> Inl (KeyError missing))"

text \<open>
\<open>df.drop(columns=names)\<close>: \<open>KeyError\<close> when a label is absent.
\<close>

definition drop_columns :: "string list \<Rightarrow> dataframe \<Rightarrow> error + dataframe" where
  "drop_columns names df =
     (case filter (\<lambda>name. name \<notin> set (columns df)) names of
        [] \<Rightarrow> Inr \<lparr>columns = filter (\<lambda>c. c \<notin> set names) (columns df),
                   rows = map (\<lambda>r. map snd (filter (\<lambda>(c, v). c \<notin> set names) (zip (columns df) r)))
                            (rows df)\<rparr>
      | missing \<Rightarrow> Inl (KeyError missing))"

text \<open>
  What \<open>pd.to_numeric(..., errors="coerce")\<close> reads in one cell: a missing value
  (\<open>NaN\<close>), an integer, a float with an integral value, a float with a fractional
  part (given by its floor), or an infinite float. How pandas reads a string as a
  number is a parameter \<open>parse\<close>: a string it cannot read is \<open>Missing\<close>.
\<close>

datatype numeric = Missing | Integral int | FloatIntegral int | Fractional int | PosInf | NegInf

fun numeric_of :: "(string \<Rightarrow> numeric) \<Rightarrow> cell \<Rightarrow> numeric" where
  "numeric_of parse (CStr s) = parse s"
| "numeric_of parse (CInt i) = Integral i"
| "numeric_of parse CNaN = Missing"
| "numeric_of parse CNone = Missing"
| "numeric_of parse CNA = Missing"

text \<open>
  The double nearest to an integer, ties to even: exact up to \<open>2 ^ 53\<close>, a multiple
  of \<open>2 ^ e\<close> from \<open>2 ^ (52 + e)\<close> on. The formula is the rounding for integers
  below \<open>2 ^ 64\<close> in absolute value; beyond, all that is used is that the result is
  outside the 64-bit range.
\<close>

definition float64_of_int :: "int \<Rightarrow> int" where
  "float64_of_int i =
     (let a = \<bar>i\<bar>;
          e = length (filter (\<lambda>k. 2 ^ (53 + k) \<le> a) [0 ..< 11]);
          q = a div 2 ^ e;
          r = a mod 2 ^ e;
          m = (if 2 * r < 2 ^ e then q
               else if 2 ^ e < 2 * r then q + 1
               else if even q then q else q + 1)
      in if i < 0 then - (m * 2 ^ e) else m * 2 ^ e)"

fun is_float :: "numeric \<Rightarrow> bool" where
  "is_float (Integral i) = False"
| "is_float Missing = True"
| "is_float (FloatIntegral i) = True"
| "is_float (Fractional k) = True"
| "is_float PosInf = True"
| "is_float NegInf = True"

fun as_float64 :: "numeric \<Rightarrow> numeric" where
  "as_float64 (Integral i) = FloatIntegral (float64_of_int i)"
| "as_float64 (FloatIntegral i) = FloatIntegral (float64_of_int i)"
| "as_float64 Missing = Missing"
| "as_float64 (Fractional k) = Fractional k"
| "as_float64 PosInf = PosInf"
| "as_float64 NegInf = NegInf"

text \<open>
  \<open>pd.to_numeric(series, errors="coerce")\<close>: a column of integers stays a column of
  integers; as soon as one value is a float (a coerced \<open>NaN\<close> is one) the column is
  \<open>float64\<close> and every integer in it is rounded to the nearest double.
\<close>

definition to_numeric_coerce :: "(string \<Rightarrow> numeric) \<Rightarrow> cell list \<Rightarrow> numeric list" where
  "to_numeric_coerce parse series =
     (let raw = map (numeric_of parse) series
      in if list_ex is_float raw then map as_float64 raw else raw)"

text \<open>
  \<open>.astype("Int64")\<close>, the nullable 64-bit integer type. The cast succeeds when
  every value is \<open>NaN\<close>, which becomes \<open>pd.NA\<close>, or integral from \<open>- 2 ^ 63\<close>
  to \<open>2 ^ 63 - 1\<close>, which becomes the integer.
\<close>

definition in_int64 :: "int \<Rightarrow> bool" where
  "in_int64 i = (- (2 ^ 63) \<le> i \<and> i < 2 ^ 63)"

fun castable :: "numeric \<Rightarrow> bool" where
  "castable Missing = True"
| "castable (Integral i) = in_int64 i"
| "castable (FloatIntegral i) = in_int64 i"
| "castable (Fractional k) = False"
| "castable PosInf = False"
| "castable NegInf = False"

fun cast_value :: "numeric \<Rightarrow> cell" where
  "cast_value (Integral i) = CInt i"
| "cast_value (FloatIntegral i) = CInt i"
| "cast_value Missing = CNA"
| "cast_value (Fractional k) = CNA"
| "cast_value PosInf = CNA"
| "cast_value NegInf = CNA"

text \<open>
  The exception of a cast that fails. A column of integers with one out of range
  raises \<open>TypeError\<close> (the cast is not safe). For a column of floats pandas first
  converts the largest value with \<open>int\<close>, which raises \<open>OverflowError\<close> when it is
  infinite. When the largest value has a fractional part the values are then converted
  one by one as Python objects, which raises \<open>OverflowError\<close> at a value below the
  64-bit range, and \<open>TypeError\<close> is raised otherwise as the result differs from the
  column. When the largest value is integral the column is cast as a whole and
  \<open>TypeError\<close> is raised as the result differs from it. The finite values are
  compared through \<open>finite_key\<close>: twice the value when it is integral, twice the
  floor plus one when it is not.
\<close>

fun finite_key :: "numeric \<Rightarrow> int list" where
  "finite_key (Integral i) = [2 * i]"
| "finite_key (FloatIntegral i) = [2 * i]"
| "finite_key (Fractional k) = [2 * k + 1]"
| "finite_key Missing = []"
| "finite_key PosInf = []"
| "finite_key NegInf = []"

definition max_is_fractional :: "numeric list \<Rightarrow> bool" where
  "max_is_fractional xs =
     (let ks = concat (map finite_key xs)
      in list_ex (\<lambda>k. odd k \<and> list_all (\<lambda>j. j \<le> k) ks) ks)"

fun below_int64 :: "numeric \<Rightarrow> bool" where
  "below_int64 NegInf = True"
| "below_int64 (FloatIntegral i) = (i < - (2 ^ 63))"
| "below_int64 (Fractional k) = (k < - (2 ^ 63))"
| "below_int64 (Integral i) = (i < - (2 ^ 63))"
| "below_int64 Missing = False"
| "below_int64 PosInf = False"

definition cast_error :: "numeric list \<Rightarrow> error" where
  "cast_error xs =
     (if \<not> list_ex is_float xs then TypeError
      else if PosInf \<in> set xs \<or> (NegInf \<in> set xs \<and> concat (map finite_key xs) = [])
      then OverflowError
      else if max_is_fractional xs \<and> list_ex below_int64 xs then OverflowError
      else TypeError)"

definition astype_Int64 :: "numeric list \<Rightarrow> error + cell list" where
  "astype_Int64 xs =
     (if list_all castable xs then Inr (map cast_value xs) else Inl (cast_error xs))"

subsection \<open>crosswalk.py\<close>

text \<open>
  \<open>build_satcat_crosswalk\<close> (lines 18 to 28). After the renaming a frame that
  already had a column \<open>norad_id\<close> has two of them, \<open>df["norad_id"]\<close> is then
  a frame and \<open>pd.to_numeric\<close> raises \<open>TypeError\<close>.
\<close>

definition build_satcat_crosswalk :: "(string \<Rightarrow> numeric) \<Rightarrow> dataframe \<Rightarrow> error + dataframe" where
  "build_satcat_crosswalk parse satcat_df =
     (if ''INTLDES'' \<notin> set (columns satcat_df) \<or> ''NORAD_CAT_ID'' \<notin> set (columns satcat_df)
      then Inl (ValueError ''satcat_df must contain columns INTLDES and NORAD_CAT_ID'')
      else
        let df1 = set_col satcat_df ''INTLDES'' (normalize_intldes (get_col satcat_df ''INTLDES''));
            df2 = dropna [''INTLDES'', ''NORAD_CAT_ID''] df1;
            df3 = rename_col ''NORAD_CAT_ID'' ''norad_id'' df2
        in if \<not> distinct (columns df3) then Inl TypeError
           else
             (case astype_Int64 (to_numeric_coerce parse (get_col df3 ''norad_id'')) of
                Inl e \<Rightarrow> Inl e
              | Inr ids \<Rightarrow>
                  select_cols [''INTLDES'', ''norad_id'', ''SATNAME'', ''COUNTRY'', ''LAUNCH'', ''DECAY'']
                    (set_col df3 ''norad_id'' ids)))"

text \<open>
  Merge keys are equal when the cells are equal; pandas also matches one missing key
  with another.
\<close>

definition key_eq :: "cell \<Rightarrow> cell \<Rightarrow> bool" where
  "key_eq a b = (a = b \<or> (isna a \<and> isna b))"

text \<open>
  \<open>left.merge(right, left_on=..., right_on=..., how="left")\<close>: the rows of
  \<open>left\<close> in their order, each once per matching row of \<open>right\<close> (in the order
  of \<open>right\<close>), or once with missing cells for the columns of \<open>right\<close> when
  nothing matches. A label the two frames share gets the suffix \<open>_x\<close> on the left
  and \<open>_y\<close> on the right, and \<open>MergeError\<close> is raised when that makes two
  labels of one side equal. The missing cells are written \<open>NaN\<close>; in a column of
  type \<open>Int64\<close> pandas shows the same missing value as \<open>pd.NA\<close>.
\<close>

definition pd_merge_left :: "dataframe \<Rightarrow> dataframe \<Rightarrow> string \<Rightarrow> string \<Rightarrow> error + dataframe" where
  "pd_merge_left left right left_on right_on =
     (if left_on \<notin> set (columns left) then Inl (KeyError [left_on])
      else if right_on \<notin> set (columns right) then Inl (KeyError [right_on])
      else
        let overlap = filter (\<lambda>c. c \<in> set (columns right)) (columns left);
            llabels = map (\<lambda>c. if c \<in> set overlap then c @ ''_x'' else c) (columns left);
            rlabels = map (\<lambda>c. if c \<in> set overlap then c @ ''_y'' else c) (columns right);
            li = col_index (columns left) left_on;
            ri = col_index (columns right) right_on
        in if \<not> distinct llabels \<or> \<not> distinct rlabels then Inl MergeError
           else Inr \<lparr>columns = llabels @ rlabels,
                     rows = concat (map (\<lambda>l.
                        (case filter (\<lambda>r. key_eq (l ! li) (r ! ri)) (rows right) of
                           [] \<Rightarrow> [l @ replicate (length (columns right)) CNaN]
                         | ms \<Rightarrow> map (\<lambda>r. l @ r) ms)) (rows left))\<rparr>)"

text \<open>
  \<open>merge_unoosa_with_crosswalk\<close> (lines 31 to 51); the default of
  \<open>unoosa_intldes_col\<close> is \<open>international_designator\<close>.
\<close>

definition merge_unoosa_with_crosswalk :: "dataframe \<Rightarrow> dataframe \<Rightarrow> string \<Rightarrow> error + dataframe" where
  "merge_unoosa_with_crosswalk unoosa_df satcat_crosswalk unoosa_intldes_col =
     (if unoosa_intldes_col \<notin> set (columns unoosa_df)
      then Inl (ValueError (''UNOOSA dataframe lacks column: '' @ unoosa_intldes_col))
      else
        let df = set_col unoosa_df ''intldes'' (normalize_intldes (get_col unoosa_df unoosa_intldes_col))
        in (case pd_merge_left df satcat_crosswalk ''intldes'' ''INTLDES'' of
              Inl e \<Rightarrow> Inl e
            | Inr merged \<Rightarrow>
                (case drop_columns [''INTLDES''] merged of
                   Inl e \<Rightarrow> Inl e
                 | Inr d \<Rightarrow> Inr (rename_col ''SATNAME'' ''satcat_satname'' d))))"

subsection \<open>The crosswalk, row by row\<close>

text \<open>
  What the spec says of the crosswalk, as functions of one row of the catalog: the
  fixed projection, the identifier coerced to a 64-bit integer or to the missing value,
  and the designator normalised.
\<close>

definition crosswalk_columns :: "string list" where
  "crosswalk_columns = [''INTLDES'', ''norad_id'', ''SATNAME'', ''COUNTRY'', ''LAUNCH'', ''DECAY'']"

definition optional_columns :: "string list" where
  "optional_columns = [''SATNAME'', ''COUNTRY'', ''LAUNCH'', ''DECAY'']"

text \<open>
  A row has an identifier when the cell is not missing. The identifiers of the rows
  that have one are read as floats when one of them is not an integer; the number an
  identifier is read as; the cell it is coerced to; and whether the cast rejects it.
\<close>

definition has_id :: "dataframe \<Rightarrow> cell list \<Rightarrow> bool" where
  "has_id df r = (\<not> isna (cell_at df r ''NORAD_CAT_ID''))"

definition float_ids :: "(string \<Rightarrow> numeric) \<Rightarrow> dataframe \<Rightarrow> bool" where
  "float_ids parse df =
     list_ex (\<lambda>r. is_float (numeric_of parse (cell_at df r ''NORAD_CAT_ID'')))
       (filter (has_id df) (rows df))"

definition id_number :: "(string \<Rightarrow> numeric) \<Rightarrow> dataframe \<Rightarrow> cell \<Rightarrow> numeric" where
  "id_number parse df c =
     (if float_ids parse df then as_float64 (numeric_of parse c) else numeric_of parse c)"

definition coerce_id :: "(string \<Rightarrow> numeric) \<Rightarrow> dataframe \<Rightarrow> cell \<Rightarrow> cell" where
  "coerce_id parse df c = cast_value (id_number parse df c)"


definition crosswalk_row :: "(string \<Rightarrow> numeric) \<Rightarrow> dataframe \<Rightarrow> cell list \<Rightarrow> cell list" where
  "crosswalk_row parse df r =
     [CStr (normalize_str (py_str (cell_at df r ''INTLDES''))),
      coerce_id parse df (cell_at df r ''NORAD_CAT_ID''),
      cell_at df r ''SATNAME'', cell_at df r ''COUNTRY'',
      cell_at df r ''LAUNCH'', cell_at df r ''DECAY'']"



text \<open>
The two steps of the code on one row: the label renamed, the designator normalised in place.
\<close>

definition ren_id :: "string \<Rightarrow> string" where
  "ren_id c = (if c = ''NORAD_CAT_ID'' then ''norad_id'' else c)"

definition norm_des :: "dataframe \<Rightarrow> cell list \<Rightarrow> cell list" where
  "norm_des df r =
     r[col_index (columns df) ''INTLDES'' := CStr (normalize_str (py_str (cell_at df r ''INTLDES'')))]"

subsection \<open>The left join, row by row\<close>

text \<open>
  The join key of an external row, the row with the column \<open>intldes\<close> set, the
  rows of the crosswalk with that key, the catalog fields a crosswalk row contributes
  (all but the key), and the rows of the output that come from one external row.
\<close>

definition row_key :: "dataframe \<Rightarrow> string \<Rightarrow> cell list \<Rightarrow> cell" where
  "row_key ext col r = CStr (normalize_str (py_str (cell_at ext r col)))"

definition keyed_row :: "dataframe \<Rightarrow> string \<Rightarrow> cell list \<Rightarrow> cell list" where
  "keyed_row ext col r =
     (if ''intldes'' \<in> set (columns ext)
      then r[col_index (columns ext) ''intldes'' := row_key ext col r]
      else r @ [row_key ext col r])"

definition matches :: "dataframe \<Rightarrow> cell \<Rightarrow> cell list list" where
  "matches xw key = filter (\<lambda>x. key_eq key (cell_at xw x ''INTLDES'')) (rows xw)"

definition catalog_fields :: "dataframe \<Rightarrow> cell list \<Rightarrow> cell list" where
  "catalog_fields xw x = map snd (filter (\<lambda>(c, v). c \<noteq> ''INTLDES'') (zip (columns xw) x))"

definition missing_fields :: "dataframe \<Rightarrow> cell list" where
  "missing_fields xw = catalog_fields xw (replicate (length (columns xw)) CNaN)"

definition joined_rows :: "dataframe \<Rightarrow> dataframe \<Rightarrow> string \<Rightarrow> cell list \<Rightarrow> cell list list" where
  "joined_rows ext xw col r =
     (if matches xw (row_key ext col r) = []
      then [keyed_row ext col r @ catalog_fields xw (replicate (length (columns xw)) CNaN)]
      else map (\<lambda>x. keyed_row ext col r @ catalog_fields xw x) (matches xw (row_key ext col r)))"

definition left_width :: "dataframe \<Rightarrow> nat" where
  "left_width ext =
     (if ''intldes'' \<in> set (columns ext) then length (columns ext) else Suc (length (columns ext)))"

subsection \<open>Example frames\<close>

text \<open>
  A reader of decimal digits for \<open>parse\<close>, a small catalog (a designator with blanks
  and lower case, a missing designator, a missing identifier, an identifier that is
  not a number), its crosswalk, and external data; a catalog that lists one designator
  twice; and a catalog with the two required columns only.
\<close>

definition digits_only :: "string \<Rightarrow> numeric" where
  "digits_only s =
     (if s \<noteq> [] \<and> list_all (\<lambda>c. 48 \<le> (of_char c :: nat) \<and> (of_char c :: nat) \<le> 57) s
      then Integral (foldl (\<lambda>a c. 10 * a + int (of_char c - 48)) 0 s)
      else Missing)"

definition catalog_example :: dataframe where
  "catalog_example =
     \<lparr>columns = [''INTLDES'', ''NORAD_CAT_ID'', ''SATNAME'', ''COUNTRY'', ''LAUNCH'', ''DECAY'', ''RCS''],
      rows = [[CStr '' 1998-067a '', CInt 25544, CStr ''ISS (ZARYA)'', CStr ''ISS'', CStr ''1998-11-20'', CNaN, CInt 1],
              [CNaN, CStr ''5'', CStr ''VANGUARD 1'', CStr ''US'', CStr ''1958-03-17'', CNaN, CInt 2],
              [CStr ''1957-001A'', CNaN, CStr ''SL-1 R/B'', CStr ''CIS'', CStr ''1957-10-04'', CStr ''1957-12-01'', CInt 3],
              [CStr ''1957-001B'', CStr ''abc'', CStr ''SPUTNIK 1'', CStr ''CIS'', CStr ''1957-10-04'', CStr ''1958-01-03'', CInt 4]]\<rparr>"

definition crosswalk_example :: dataframe where
  "crosswalk_example =
     \<lparr>columns = [''INTLDES'', ''norad_id'', ''SATNAME'', ''COUNTRY'', ''LAUNCH'', ''DECAY''],
      rows = [[CStr ''1998-067A'', CInt 25544, CStr ''ISS (ZARYA)'', CStr ''ISS'', CStr ''1998-11-20'', CNaN],
              [CStr ''NAN'', CInt 5, CStr ''VANGUARD 1'', CStr ''US'', CStr ''1958-03-17'', CNaN],
              [CStr ''1957-001B'', CNA, CStr ''SPUTNIK 1'', CStr ''CIS'', CStr ''1957-10-04'', CStr ''1958-01-03'']]\<rparr>"

definition external_example :: dataframe where
  "external_example =
     \<lparr>columns = [''object_name'', ''international_designator''],
      rows = [[CStr ''Zarya'', CStr ''1998-067a''],
              [CStr ''Unregistered'', CStr ''2030-001A'']]\<rparr>"

definition merged_example :: dataframe where
  "merged_example =
     \<lparr>columns = [''object_name'', ''international_designator'', ''intldes'', ''norad_id'',
                 ''satcat_satname'', ''COUNTRY'', ''LAUNCH'', ''DECAY''],
      rows = [[CStr ''Zarya'', CStr ''1998-067a'', CStr ''1998-067A'', CInt 25544,
               CStr ''ISS (ZARYA)'', CStr ''ISS'', CStr ''1998-11-20'', CNaN],
              [CStr ''Unregistered'', CStr ''2030-001A'', CStr ''2030-001A'', CNaN, CNaN, CNaN, CNaN, CNaN]]\<rparr>"

definition duplicate_catalog :: dataframe where
  "duplicate_catalog =
     \<lparr>columns = [''INTLDES'', ''NORAD_CAT_ID'', ''SATNAME'', ''COUNTRY'', ''LAUNCH'', ''DECAY''],
      rows = [[CStr ''2020-001A'', CInt 45000, CStr ''PAYLOAD'', CStr ''US'', CStr ''2020-01-07'', CNaN],
              [CStr ''2020-001A'', CInt 45001, CStr ''DEBRIS'', CStr ''US'', CStr ''2020-01-07'', CNaN]]\<rparr>"

definition duplicate_crosswalk :: dataframe where
  "duplicate_crosswalk =
     \<lparr>columns = [''INTLDES'', ''norad_id'', ''SATNAME'', ''COUNTRY'', ''LAUNCH'', ''DECAY''],
      rows = [[CStr ''2020-001A'', CInt 45000, CStr ''PAYLOAD'', CStr ''US'', CStr ''2020-01-07'', CNaN],
              [CStr ''2020-001A'', CInt 45001, CStr ''DEBRIS'', CStr ''US'', CStr ''2020-01-07'', CNaN]]\<rparr>"

definition single_external :: dataframe where
  "single_external = \<lparr>columns = [''international_designator''], rows = [[CStr ''2020-001A'']]\<rparr>"

definition duplicate_merged :: dataframe where
  "duplicate_merged =
     \<lparr>columns = [''international_designator'', ''intldes'', ''norad_id'', ''satcat_satname'',
                 ''COUNTRY'', ''LAUNCH'', ''DECAY''],
      rows = [[CStr ''2020-001A'', CStr ''2020-001A'', CInt 45000, CStr ''PAYLOAD'', CStr ''US'',
               CStr ''2020-01-07'', CNaN],
              [CStr ''2020-001A'', CStr ''2020-001A'', CInt 45001, CStr ''DEBRIS'', CStr ''US'',
               CStr ''2020-01-07'', CNaN]]\<rparr>"

definition minimal_catalog :: dataframe where
  "minimal_catalog =
     \<lparr>columns = [''INTLDES'', ''NORAD_CAT_ID''], rows = [[CStr ''1998-067A'', CInt 25544]]\<rparr>"

text \<open>
  A catalog with the six projected columns and given identifier cells, and a reader
  that also knows the two infinite numbers and one fractional number.
\<close>

definition id_catalog :: "cell list \<Rightarrow> dataframe" where
  "id_catalog ids =
     \<lparr>columns = [''INTLDES'', ''NORAD_CAT_ID'', ''SATNAME'', ''COUNTRY'', ''LAUNCH'', ''DECAY''],
      rows = map (\<lambda>c. [CStr ''2020-001A'', c, CNaN, CNaN, CNaN, CNaN]) ids\<rparr>"

definition sample_parse :: "string \<Rightarrow> numeric" where
  "sample_parse s =
     (if s = ''inf'' then PosInf
      else if s = ''-inf'' then NegInf
      else if s = ''1.5'' then Fractional 1
      else digits_only s)"

section \<open>The retrieval client (n2yo_client.py)\<close>

subsection \<open>Payloads and cache files\<close>

text \<open>
  The payload is whatever JSON value the service answers. The text of a cache file is
  kept abstract: it is either the text \<open>json.dumps\<close> writes for a value, which
  \<open>json.loads\<close> reads back as that value, or a text \<open>json.loads\<close> rejects.
\<close>

datatype json = JNull | JBool bool | JNum int | JStr string | JArr "json list" | JObj "(string \<times> json) list"

datatype file_text = Dumped json | Unparseable string

fun json_loads :: "file_text \<Rightarrow> json option" where
  "json_loads (Dumped data) = Some data"
| "json_loads (Unparseable s) = None"

definition json_dumps :: "json \<Rightarrow> file_text" where
  "json_dumps data = Dumped data"

subsection \<open>The client and the world it acts on\<close>

text \<open>
  The fields \<open>__init__\<close> sets (lines 37 to 42); the API key is given by the caller
  here, the lookup in the environment is not modelled. \<open>default_client\<close> is
  \<open>N2YOClient(api_key=key)\<close> with every other argument at its default.
\<close>

record n2yo_client =
  api_key :: string
  base_url :: string
  cache_dir :: string
  polite_delay_seconds :: real

definition rstrip_slash :: "string \<Rightarrow> string" where
  "rstrip_slash s = rev (dropWhile (\<lambda>c. c = CHR ''/'') (rev s))"

definition N2YOClient :: "string \<Rightarrow> string \<Rightarrow> string \<Rightarrow> real \<Rightarrow> n2yo_client" where
  "N2YOClient key url dir delay =
     \<lparr>api_key = key, base_url = rstrip_slash url, cache_dir = dir, polite_delay_seconds = delay\<rparr>"

definition default_client :: "string \<Rightarrow> n2yo_client" where
  "default_client key = N2YOClient key ''https://api.n2yo.com/rest/v1/satellite'' ''cache_tle'' 0.25"

text \<open>
  What a call does to the outside is recorded in order: an HTTP request, the
  \<open>time.sleep\<close> of line 64, the write of a cache file, and the sleep of the retry
  decorator between two attempts. The world is the cache directory (one file per
  identifier), the number of requests sent so far and the events so far. The network is
  a function \<open>net\<close> from the number of a request to what comes back.
\<close>

datatype event = HttpGet string | TimeSleep real | CacheWrite int | RetrySleep int

record world =
  cache :: "int \<Rightarrow> file_text option"
  requests :: nat
  events :: "event list"

datatype http_result = ConnectionFailed | Response nat "json option"

text \<open>
  The exceptions one attempt can end in: \<open>session.get\<close> fails, \<open>raise_for_status\<close>
  rejects a status from 400 to 599, \<open>resp.json()\<close> rejects the body, or
  \<open>time.sleep\<close> rejects a negative delay. After the last attempt the decorator
  raises \<open>RetryError\<close>, which holds the last attempt's exception.
\<close>

datatype fetch_error = RequestException | HTTPError nat | JSONDecodeError | SleepValueError

datatype retry_error = RetryError fetch_error

subsection \<open>get_tle\<close>

definition tle_url :: "n2yo_client \<Rightarrow> int \<Rightarrow> string" where
  "tle_url self norad_id = base_url self @ ''/tle/'' @ str_int norad_id @ ''&apiKey='' @ api_key self"

text \<open>
  Lines 50 to 56: the cache entry, when the file exists and \<open>json.loads\<close> accepts it;
  an exception while reading is swallowed.
\<close>

definition read_cache :: "world \<Rightarrow> int \<Rightarrow> json option" where
  "read_cache w norad_id =
     (case cache w norad_id of None \<Rightarrow> None | Some txt \<Rightarrow> json_loads txt)"

text \<open>
  The body of \<open>get_tle\<close> (lines 50 to 67), one attempt. Writing the cache file is
  taken to succeed.
\<close>

definition get_tle_body ::
  "n2yo_client \<Rightarrow> (nat \<Rightarrow> http_result) \<Rightarrow> int \<Rightarrow> world \<Rightarrow> (fetch_error + json) \<times> world" where
  "get_tle_body self net norad_id w =
     (case read_cache w norad_id of
        Some data \<Rightarrow> (Inr data, w)
      | None \<Rightarrow>
          let w1 = w\<lparr>requests := Suc (requests w),
                     events := events w @ [HttpGet (tle_url self norad_id)]\<rparr>
          in (case net (requests w) of
                ConnectionFailed \<Rightarrow> (Inl RequestException, w1)
              | Response status body \<Rightarrow>
                  if 400 \<le> status \<and> status < 600 then (Inl (HTTPError status), w1)
                  else (case body of
                          None \<Rightarrow> (Inl JSONDecodeError, w1)
                        | Some data \<Rightarrow>
                            if polite_delay_seconds self < 0 then (Inl SleepValueError, w1)
                            else (Inr data,
                                  w1\<lparr>events := events w1 @ [TimeSleep (polite_delay_seconds self),
                                                             CacheWrite norad_id],
                                     cache := (cache w1)(norad_id \<mapsto> json_dumps data)\<rparr>))))"

text \<open>
  The decorator of line 44,
  \<open>@retry(wait=wait_exponential(multiplier=1, min=1, max=60), stop=stop_after_attempt(5))\<close>.
  Attempts are numbered from 1. After a failed attempt tenacity asks \<open>stop\<close> first and
  raises when it says so; otherwise it sleeps \<open>wait\<close> of the attempt's number,
  \<open>max(max(0, min), min(multiplier * 2 ** (attempt_number - 1), max))\<close>, and calls the
  body again.
\<close>

definition wait_exponential :: "nat \<Rightarrow> int" where
  "wait_exponential attempt_number = max (max 0 1) (min (1 * 2 ^ (attempt_number - 1)) 60)"

definition stop_after_attempt :: "nat \<Rightarrow> bool" where
  "stop_after_attempt attempt_number = (attempt_number \<ge> 5)"

function retrying ::
  "n2yo_client \<Rightarrow> (nat \<Rightarrow> http_result) \<Rightarrow> int \<Rightarrow> nat \<Rightarrow> world \<Rightarrow> (retry_error + json) \<times> world" where
  "retrying self net norad_id attempt_number w =
     (case get_tle_body self net norad_id w of
        (Inr data, w') \<Rightarrow> (Inr data, w')
      | (Inl e, w') \<Rightarrow>
          if stop_after_attempt attempt_number then (Inl (RetryError e), w')
          else retrying self net norad_id (Suc attempt_number)
                 (w'\<lparr>events := events w' @ [RetrySleep (wait_exponential attempt_number)]\<rparr>))"
  by pat_completeness auto
termination
  by (relation "measure (\<lambda>(self, net, norad_id, attempt_number, w). 5 - attempt_number)")
     (auto simp: stop_after_attempt_def)

declare retrying.simps [simp del]

definition get_tle ::
  "n2yo_client \<Rightarrow> (nat \<Rightarrow> http_result) \<Rightarrow> int \<Rightarrow> world \<Rightarrow> (retry_error + json) \<times> world" where
  "get_tle self net norad_id w = retrying self net norad_id 1 w"

subsection \<open>One attempt and one call, in the words of the spec\<close>

text \<open>
  The outcome of one network attempt as a function of what the network returns; the
  events of \<open>k\<close> failed attempts from attempt \<open>a\<close> on, each followed by its backoff;
  the events of a successful live fetch; and the backoff and politeness sleeps among a
  list of events.
\<close>

definition attempt_result :: "n2yo_client \<Rightarrow> http_result \<Rightarrow> fetch_error + json" where
  "attempt_result self r =
     (case r of
        ConnectionFailed \<Rightarrow> Inl RequestException
      | Response status body \<Rightarrow>
          if 400 \<le> status \<and> status < 600 then Inl (HTTPError status)
          else (case body of
                  None \<Rightarrow> Inl JSONDecodeError
                | Some data \<Rightarrow> if polite_delay_seconds self < 0 then Inl SleepValueError else Inr data))"

definition retries :: "string \<Rightarrow> nat \<Rightarrow> nat \<Rightarrow> event list" where
  "retries url a k = concat (map (\<lambda>i. [HttpGet url, RetrySleep (wait_exponential i)]) [a ..< a + k])"

definition live_fetch :: "n2yo_client \<Rightarrow> int \<Rightarrow> event list" where
  "live_fetch self norad_id =
     [HttpGet (tle_url self norad_id), TimeSleep (polite_delay_seconds self), CacheWrite norad_id]"

fun retry_sleeps :: "event list \<Rightarrow> int list" where
  "retry_sleeps [] = []"
| "retry_sleeps (RetrySleep d # es) = d # retry_sleeps es"
| "retry_sleeps (HttpGet url # es) = retry_sleeps es"
| "retry_sleeps (TimeSleep d # es) = retry_sleeps es"
| "retry_sleeps (CacheWrite i # es) = retry_sleeps es"

fun polite_sleeps :: "event list \<Rightarrow> real list" where
  "polite_sleeps [] = []"
| "polite_sleeps (TimeSleep d # es) = d # polite_sleeps es"
| "polite_sleeps (HttpGet url # es) = polite_sleeps es"
| "polite_sleeps (RetrySleep d # es) = polite_sleeps es"
| "polite_sleeps (CacheWrite i # es) = polite_sleeps es"

subsection \<open>Example worlds and networks\<close>

definition empty_world :: world where
  "empty_world = \<lparr>cache = (\<lambda>_. None), requests = 0, events = []\<rparr>"

definition iss_payload :: json where
  "iss_payload =
     JObj [(''info'', JObj [(''satid'', JNum 25544), (''satname'', JStr ''SPACE STATION''),
                            (''transactionscount'', JNum 3)]),
           (''tle'', JStr ''1 25544U 98067A ...'')]"

definition warm_world :: world where
  "warm_world =
     \<lparr>cache = (\<lambda>i. if i = 25544 then Some (Dumped iss_payload) else None),
      requests = 0, events = []\<rparr>"

definition corrupt_world :: world where
  "corrupt_world =
     \<lparr>cache = (\<lambda>i. if i = 25544 then Some (Unparseable ''{ info: '') else None),
      requests = 0, events = []\<rparr>"

definition failing :: "nat \<Rightarrow> http_result" where
  "failing k = ConnectionFailed"

definition answering :: "nat \<Rightarrow> http_result" where
  "answering k = Response 200 (Some iss_payload)"

definition flaky :: "nat \<Rightarrow> http_result" where
  "flaky k = (if k < 2 then Response 503 None else Response 200 (Some iss_payload))"

section \<open>The orbital element deriver (tle_parse.py)\<close>

text \<open>
  What \<open>parse_tle_fields\<close> may be handed: a string, \<open>None\<close>, the float
  \<open>NaN\<close> (a missing cell of the table of responses) or an integer, with Python's
  truth value and \<open>isinstance(x, str)\<close>.
\<close>

datatype pyobj = PyStr string | PyNone | PyNaN | PyInt int

fun truthy :: "pyobj \<Rightarrow> bool" where
  "truthy (PyStr s) = (s \<noteq> [])"
| "truthy PyNone = False"
| "truthy PyNaN = True"
| "truthy (PyInt i) = (i \<noteq> 0)"

fun isinstance_str :: "pyobj \<Rightarrow> bool" where
  "isinstance_str (PyStr s) = True"
| "isinstance_str PyNone = False"
| "isinstance_str PyNaN = False"
| "isinstance_str (PyInt i) = False"

text \<open>
  \<open>str.splitlines()\<close> on ASCII: a line ends at a line feed, vertical tab, form feed,
  carriage return (with a line feed right after it as one break) or one of the
  separators 28 to 30; no empty line is added after a final break.
\<close>

definition is_linebreak :: "char \<Rightarrow> bool" where
  "is_linebreak c = (let n = (of_char c :: nat) in (10 \<le> n \<and> n \<le> 13) \<or> (28 \<le> n \<and> n \<le> 30))"

fun splitlines_from :: "string \<Rightarrow> string \<Rightarrow> string list" where
  "splitlines_from cur [] = (if cur = [] then [] else [rev cur])"
| "splitlines_from cur (c # d # cs) =
     (if c = CHR 0x0D \<and> d = CHR 0x0A then rev cur # splitlines_from [] cs
      else if is_linebreak c then rev cur # splitlines_from [] (d # cs)
      else splitlines_from (c # cur) (d # cs))"
| "splitlines_from cur [c] = (if is_linebreak c then [rev cur] else [rev (c # cur)])"

definition splitlines :: "string \<Rightarrow> string list" where
  "splitlines s = splitlines_from [] s"

text \<open>
Line 18: \<open>[ln.strip() for ln in tle_one_line.splitlines() if ln.strip()]\<close>.
\<close>

definition nonblank_lines :: "string \<Rightarrow> string list" where
  "nonblank_lines s = map str_strip (filter (\<lambda>ln. str_strip ln \<noteq> []) (splitlines s))"

text \<open>
  The parser of the sgp4 library and the floating-point computations of lines 28 to 67
  are parameters. \<open>twoline2rv\<close> gives no record when \<open>Satrec.twoline2rv\<close> raises.
  \<open>uncaught\<close> is the exception lines 28 to 67 raise outside their
  \<open>try\<close> blocks, when they do: \<open>datetime.fromtimestamp\<close> rejecting the epoch, or
  \<open>float\<close> applied to the complex power of a negative mean motion. \<open>feature\<close> is
  the value the code stores under a key.
\<close>

datatype tle_error = OverflowError | ComplexTypeError

record ('sat, 'v) orbit_lib =
  twoline2rv :: "string \<Rightarrow> string \<Rightarrow> 'sat option"
  uncaught :: "'sat \<Rightarrow> tle_error option"
  feature :: "'sat \<Rightarrow> string \<Rightarrow> 'v"

definition feature_keys :: "string list" where
  "feature_keys = [''tle_epoch'', ''inclination_deg'', ''raan_deg'', ''argp_deg'',
                   ''mean_anomaly_deg'', ''eccentricity'', ''mean_motion_rev_per_day'', ''period_min'',
                   ''semi_major_axis_km'', ''perigee_km'', ''apogee_km'']"

text \<open>
\<open>parse_tle_fields\<close> (lines 10 to 69); the empty dictionary is the empty list.
\<close>

definition parse_tle_fields ::
  "('sat, 'v) orbit_lib \<Rightarrow> pyobj \<Rightarrow> tle_error + (string \<times> 'v) list" where
  "parse_tle_fields lib tle_one_line =
     (if \<not> truthy tle_one_line \<or> \<not> isinstance_str tle_one_line then Inr []
      else
        (case tle_one_line of
           PyStr s \<Rightarrow>
             (let lines = nonblank_lines s in
              if length lines < 2 then Inr []
              else
                (case twoline2rv lib (lines ! 0) (lines ! 1) of
                   None \<Rightarrow> Inr []
                 | Some sat \<Rightarrow>
                     (case uncaught lib sat of
                        Some e \<Rightarrow> Inl e
                      | None \<Rightarrow> Inr (map (\<lambda>k. (k, feature lib sat k)) feature_keys))))
         | _ \<Rightarrow> Inr []))"

subsection \<open>Example inputs\<close>

text \<open>
  A stand-in for the library that accepts two lines starting with the line numbers 1
  and 2, a well-formed element set, and two lines that are not one.
\<close>

definition toy_lib :: "(string \<times> string, string) orbit_lib" where
  "toy_lib =
     \<lparr>twoline2rv = (\<lambda>l1 l2. if take 2 l1 = ''1 '' \<and> take 2 l2 = ''2 '' then Some (l1, l2) else None),
      uncaught = (\<lambda>sat. None),
      feature = (\<lambda>sat k. if k = ''tle_epoch'' then take 14 (drop 18 (fst sat)) else ''0.0'')\<rparr>"

definition iss_tle :: string where
  "iss_tle = ''1 25544U 98067A   20029.54791435  .00016717  00000-0  10270-3 0  9004'' @ [CHR 0x0A]
           @ ''2 25544  51.6426 200.5688 0005413 100.3561 259.8321 15.49134693 40459'' @ [CHR 0x0A]"

definition garbage_tle :: string where
  "garbage_tle = ''not a tle'' @ [CHR 0x0A] @ ''at all'' @ [CHR 0x0A]"

section \<open>Normalisation: basic facts\<close>

lemma of_char_upper_char:
  "(of_char (upper_char c) :: nat) =
     (if 97 \<le> (of_char c :: nat) \<and> (of_char c :: nat) \<le> 122 then of_char c - 32 else of_char c)"
proof -
  define n where "n = (of_char c :: nat)"
  have "97 \<le> n \<and> n \<le> 122 \<Longrightarrow> (n - 32) mod 256 = n - 32"
    by (rule mod_less) arith
  then show ?thesis
    unfolding upper_char_def Let_def n_def [symmetric] by (simp add: n_def)
qed

lemma upper_char_idem: "upper_char (upper_char c) = upper_char c"
proof -
  define n where "n = (of_char c :: nat)"
  have "\<not> (97 \<le> (if 97 \<le> n \<and> n \<le> 122 then n - 32 else n)
           \<and> (if 97 \<le> n \<and> n \<le> 122 then n - 32 else n) \<le> 122)"
    by auto
  then have "\<not> (97 \<le> (of_char (upper_char c) :: nat) \<and> (of_char (upper_char c) :: nat) \<le> 122)"
    unfolding of_char_upper_char n_def .
  then show ?thesis
    by (auto simp add: upper_char_def [of "upper_char c"] Let_def)
qed

lemma isspace_upper: "isspace (upper_char c) = isspace c"
proof -
  define n where "n = (of_char c :: nat)"
  have "((9 \<le> (if 97 \<le> n \<and> n \<le> 122 then n - 32 else n)
          \<and> (if 97 \<le> n \<and> n \<le> 122 then n - 32 else n) \<le> 13)
        \<or> (28 \<le> (if 97 \<le> n \<and> n \<le> 122 then n - 32 else n)
          \<and> (if 97 \<le> n \<and> n \<le> 122 then n - 32 else n) \<le> 32))
       = ((9 \<le> n \<and> n \<le> 13) \<or> (28 \<le> n \<and> n \<le> 32))"
    by auto
  then show ?thesis
    unfolding isspace_def Let_def of_char_upper_char n_def .
qed

lemma filter_dropWhile_neg:
  "filter (\<lambda>c. \<not> P c) (dropWhile P xs) = filter (\<lambda>c. \<not> P c) xs"
  by (induction xs) auto

lemma re_sub_ws_filter: "re_sub_ws s = filter (\<lambda>c. \<not> isspace c) s"
proof (induction s rule: re_sub_ws.induct)
  case 1
  then show ?case by simp
next
  case (2 c cs)
  then show ?case by (simp add: filter_dropWhile_neg)
qed

lemma str_strip_no_ws:
  assumes "list_all (\<lambda>c. \<not> isspace c) s"
  shows "str_strip s = s"
proof -
  have d: "dropWhile isspace xs = xs" if "list_all (\<lambda>c. \<not> isspace c) xs" for xs
    using that by (cases xs) auto
  have "list_all (\<lambda>c. \<not> isspace c) (rev s)"
    using assms by (simp add: list_all_iff)
  then show ?thesis
    using assms by (simp add: str_strip_def d)
qed

lemma normalize_str_eq:
  "normalize_str s = filter (\<lambda>c. \<not> isspace c) (map upper_char s)"
  by (simp add: normalize_str_def str_upper_def re_sub_ws_filter str_strip_no_ws list_all_iff)

lemma normalize_str_twice: "normalize_str (normalize_str s) = normalize_str s"
  by (simp add: normalize_str_eq filter_map o_def isspace_upper upper_char_idem)

lemma normalize_intldes_map:
  "normalize_intldes series = map (\<lambda>v. CStr (normalize_str (py_str v))) series"
  by (simp add: normalize_intldes_def astype_str_def normalize_str_def)

section \<open>Claims about normalisation\<close>

text \<open>
  C9. Normalising is idempotent. For every string \<open>s\<close>, normalising the normalised
  string gives the normalised string again, and the same holds for
  \<open>normalize_intldes\<close> on a whole series, whatever its cells are. The normal form is
  the upper-cased string with every white-space character removed, inside the string as
  well as at its ends.
\<close>

theorem normalize_idempotent:
  "normalize_str (normalize_str s) = normalize_str s
   \<and> normalize_intldes (normalize_intldes series) = normalize_intldes series
   \<and> normalize_str s = filter (\<lambda>c. \<not> isspace c) (str_upper s)"
proof (intro conjI)
  show "normalize_str (normalize_str s) = normalize_str s"
    by (rule normalize_str_twice)
  show "normalize_intldes (normalize_intldes series) = normalize_intldes series"
    by (simp add: normalize_intldes_map normalize_str_twice o_def)
  show "normalize_str s = filter (\<lambda>c. \<not> isspace c) (str_upper s)"
    by (simp add: normalize_str_eq str_upper_def)
qed

section \<open>Data frames: basic facts\<close>

lemma col_index_less: "name \<in> set cols \<Longrightarrow> col_index cols name < length cols"
  unfolding col_index_def by (induction cols) auto

lemma nth_col_index: "name \<in> set cols \<Longrightarrow> cols ! col_index cols name = name"
  unfolding col_index_def by (induction cols) auto

lemma col_index_inj:
  "a \<in> set cols \<Longrightarrow> b \<in> set cols \<Longrightarrow> a \<noteq> b \<Longrightarrow> col_index cols a \<noteq> col_index cols b"
  using nth_col_index by metis

lemma col_index_map:
  assumes "\<And>c. c \<in> set cols \<Longrightarrow> (f c = y) = (c = x)"
  shows "col_index (map f cols) y = col_index cols x"
proof -
  have "takeWhile ((\<lambda>c. c \<noteq> y) \<circ> f) cols = takeWhile (\<lambda>c. c \<noteq> x) cols"
    by (rule takeWhile_cong) (auto simp: assms)
  then show ?thesis
    by (simp add: col_index_def takeWhile_map)
qed

lemma map_zip_same: "map (\<lambda>(r, v). g r v) (zip xs (map f xs)) = map (\<lambda>r. g r (f r)) xs"
  by (induction xs) auto


lemma wf_frame_row: "wf_frame df \<Longrightarrow> r \<in> set (rows df) \<Longrightarrow> length r = length (columns df)"
  by (simp add: wf_frame_def list_all_iff)

lemma set_col_existing:
  assumes "name \<in> set (columns df)"
  shows "set_col df name (map f (rows df)) =
           df\<lparr>rows := map (\<lambda>r. r[col_index (columns df) name := f r]) (rows df)\<rparr>"
  using assms by (simp add: set_col_def map_zip_same)

lemma select_cols_ok:
  "set names \<subseteq> set (columns df) \<Longrightarrow>
     select_cols names df =
       Inr \<lparr>columns = names, rows = map (\<lambda>r. map (\<lambda>name. cell_at df r name) names) (rows df)\<rparr>"
proof -
  assume "set names \<subseteq> set (columns df)"
  then have "filter (\<lambda>name. name \<notin> set (columns df)) names = []"
    by (auto simp: filter_empty_conv)
  then show ?thesis by (simp add: select_cols_def)
qed

section \<open>The conversion of the identifiers\<close>


lemma astype_Int64_Inr:
  "(astype_Int64 xs = Inr cs) = (list_all castable xs \<and> cs = map cast_value xs)"
  by (auto simp: astype_Int64_def)

lemma astype_Int64_error:
  "astype_Int64 xs = Inl e \<Longrightarrow> e = TypeError \<or> e = error.OverflowError"
  by (auto simp: astype_Int64_def cast_error_def split: if_splits)

lemma to_numeric_kept:
  "to_numeric_coerce parse (map (\<lambda>r. cell_at df r ''NORAD_CAT_ID'') (filter (has_id df) (rows df)))
     = map (\<lambda>r. id_number parse df (cell_at df r ''NORAD_CAT_ID'')) (filter (has_id df) (rows df))"
proof (cases "float_ids parse df")
  case True
  then have "list_ex is_float (map (numeric_of parse)
               (map (\<lambda>r. cell_at df r ''NORAD_CAT_ID'') (filter (has_id df) (rows df))))"
    by (simp add: float_ids_def list_ex_iff)
  then show ?thesis
    using True by (simp add: to_numeric_coerce_def id_number_def o_def)
next
  case False
  then have "\<not> list_ex is_float (map (numeric_of parse)
               (map (\<lambda>r. cell_at df r ''NORAD_CAT_ID'') (filter (has_id df) (rows df))))"
    by (simp add: float_ids_def list_ex_iff)
  then show ?thesis
    using False by (simp add: to_numeric_coerce_def id_number_def o_def)
qed



section \<open>The crosswalk build, case by case\<close>

text \<open>
  The steps of \<open>build_satcat_crosswalk\<close> up to the renaming, then the whole function
  on a well-formed catalog that has the two required columns.
\<close>

lemma build_stage:
  assumes wf: "wf_frame df"
    and c1: "''INTLDES'' \<in> set (columns df)" "''NORAD_CAT_ID'' \<in> set (columns df)"
  shows "rename_col ''NORAD_CAT_ID'' ''norad_id''
           (dropna [''INTLDES'', ''NORAD_CAT_ID'']
              (set_col df ''INTLDES'' (normalize_intldes (get_col df ''INTLDES''))))
         = \<lparr>columns = map ren_id (columns df), rows = map (norm_des df) (filter (has_id df) (rows df))\<rparr>"
proof -
  define cols where "cols = columns df"
  define iD where "iD = col_index cols ''INTLDES''"
  define iN where "iN = col_index cols ''NORAD_CAT_ID''"
  have iD: "iD < length cols" and iN: "iN < length cols" and neq: "iD \<noteq> iN"
    using c1 col_index_less [of _ cols] col_index_inj [of "''INTLDES''" cols "''NORAD_CAT_ID''"]
    by (auto simp: iD_def iN_def cols_def)
  have len: "length r = length cols" if "r \<in> set (rows df)" for r
    using wf that by (simp add: wf_frame_row cols_def)
  define df1 where "df1 = set_col df ''INTLDES'' (normalize_intldes (get_col df ''INTLDES''))"
  have df1: "df1 = df\<lparr>rows := map (norm_des df) (rows df)\<rparr>"
  proof -
    have "normalize_intldes (get_col df ''INTLDES'')
            = map (\<lambda>r. CStr (normalize_str (py_str (cell_at df r ''INTLDES'')))) (rows df)"
      by (simp add: normalize_intldes_map get_col_def o_def)
    then show ?thesis
      using c1 set_col_existing [of "''INTLDES''" df
          "\<lambda>r. CStr (normalize_str (py_str (cell_at df r ''INTLDES'')))"]
      by (simp add: df1_def norm_des_def [abs_def])
  qed
  have "filter (\<lambda>r. \<not> isna (r ! iD) \<and> \<not> isna (r ! iN)) (map (norm_des df) (rows df))
          = map (norm_des df) (filter (has_id df) (rows df))"
    unfolding filter_map o_def
  proof (rule arg_cong [where f = "map (norm_des df)"], rule filter_cong [OF refl])
    fix r assume "r \<in> set (rows df)"
    then have "length r = length cols" by (rule len)
    then show "(\<not> isna (norm_des df r ! iD) \<and> \<not> isna (norm_des df r ! iN)) = has_id df r"
      using iD iN neq
      by (simp add: norm_des_def has_id_def cell_at_def iD_def [symmetric] iN_def [symmetric]
            cols_def [symmetric])
  qed
  then show ?thesis
    by (simp add: df1_def [symmetric] df1 dropna_def rename_col_def cell_at_def
          iD_def iN_def cols_def ren_id_def [abs_def])
qed

lemma build_unfold:
  assumes wf: "wf_frame df"
    and c1: "''INTLDES'' \<in> set (columns df)" "''NORAD_CAT_ID'' \<in> set (columns df)"
  shows "build_satcat_crosswalk parse df =
     (let df3 = \<lparr>columns = map ren_id (columns df),
                   rows = map (norm_des df) (filter (has_id df) (rows df))\<rparr>
      in if \<not> distinct (columns df3) then Inl TypeError
         else
           (case astype_Int64 (to_numeric_coerce parse (get_col df3 ''norad_id'')) of
              Inl e \<Rightarrow> Inl e
            | Inr ids \<Rightarrow>
                select_cols [''INTLDES'', ''norad_id'', ''SATNAME'', ''COUNTRY'', ''LAUNCH'', ''DECAY'']
                  (set_col df3 ''norad_id'' ids)))"
  using c1 unfolding build_satcat_crosswalk_def build_stage [OF wf c1, symmetric]
  by (simp add: Let_def)

lemma build_eq:
  assumes wf: "wf_frame df"
    and c1: "''INTLDES'' \<in> set (columns df)" "''NORAD_CAT_ID'' \<in> set (columns df)"
  shows "build_satcat_crosswalk parse df =
     (if ''norad_id'' \<in> set (columns df) then Inl TypeError
      else
        (case astype_Int64 (map (\<lambda>r. id_number parse df (cell_at df r ''NORAD_CAT_ID''))
                              (filter (has_id df) (rows df))) of
           Inl e \<Rightarrow> Inl e
         | Inr ids \<Rightarrow>
             if set optional_columns \<subseteq> set (columns df)
             then Inr \<lparr>columns = crosswalk_columns,
                       rows = map (crosswalk_row parse df) (filter (has_id df) (rows df))\<rparr>
             else Inl (KeyError (filter (\<lambda>name. name \<notin> set (columns df)) optional_columns))))"
proof -
  define cols where "cols = columns df"
  define iD where "iD = col_index cols ''INTLDES''"
  define iN where "iN = col_index cols ''NORAD_CAT_ID''"
  define kept where "kept = filter (has_id df) (rows df)"
  define df3 where "df3 = \<lparr>columns = map ren_id cols, rows = map (norm_des df) kept\<rparr>"
  define H where "H = (\<lambda>r::cell list. r[iN := coerce_id parse df (r ! iN)])"
  have dc: "distinct cols" using wf by (simp add: wf_frame_def cols_def)
  have iD: "iD < length cols" and iN: "iN < length cols" and neq: "iD \<noteq> iN"
    using c1 col_index_less [of _ cols] col_index_inj [of "''INTLDES''" cols "''NORAD_CAT_ID''"]
    by (auto simp: iD_def iN_def cols_def)
  have len: "length r = length cols" if "r \<in> set kept" for r
    using wf that by (simp add: wf_frame_row cols_def kept_def)
  have d3: "distinct (map ren_id cols) = (''norad_id'' \<notin> set cols)"
  proof
    assume d: "distinct (map ren_id cols)"
    show "''norad_id'' \<notin> set cols"
    proof
      assume a: "''norad_id'' \<in> set cols"
      have "inj_on ren_id (set cols)" using d by (simp add: distinct_map)
      moreover have "ren_id ''norad_id'' = ren_id ''NORAD_CAT_ID''" by (simp add: ren_id_def)
      ultimately have "''norad_id'' = ''NORAD_CAT_ID''"
        using a c1 by (metis cols_def inj_onD)
      then show False by simp
    qed
  next
    assume "''norad_id'' \<notin> set cols"
    then have "inj_on ren_id (set cols)"
      by (auto simp: inj_on_def ren_id_def split: if_splits)
    then show "distinct (map ren_id cols)" using dc by (simp add: distinct_map)
  qed
  show ?thesis
  proof (cases "''norad_id'' \<in> set cols")
    case True
    then show ?thesis
      using d3 by (simp add: build_unfold [OF wf c1] cols_def [symmetric])
  next
    case nid: False
    have ixN: "col_index (map ren_id cols) ''norad_id'' = iN"
      unfolding iN_def using nid by (intro col_index_map) (auto simp: ren_id_def)
    have ix: "col_index (map ren_id cols) name = col_index cols name"
      if "name \<noteq> ''norad_id''" "name \<noteq> ''NORAD_CAT_ID''" for name
      using that by (intro col_index_map) (auto simp: ren_id_def)
    have keepN: "norm_des df r ! iN = r ! iN" if "r \<in> set kept" for r
      using neq by (simp add: norm_des_def iD_def cols_def)
    have gc: "get_col df3 ''norad_id'' = map (\<lambda>r. cell_at df r ''NORAD_CAT_ID'') kept"
      using keepN
      by (simp add: get_col_def df3_def cell_at_def ixN cols_def [symmetric] iN_def [symmetric])
    have nums: "to_numeric_coerce parse (get_col df3 ''norad_id'')
                  = map (\<lambda>r. id_number parse df (cell_at df r ''NORAD_CAT_ID'')) kept"
      unfolding gc kept_def by (rule to_numeric_kept)
    show ?thesis
    proof (cases "astype_Int64 (map (\<lambda>r. id_number parse df (cell_at df r ''NORAD_CAT_ID'')) kept)")
      case (Inl e)
      have "columns df3 = map ren_id cols" by (simp add: df3_def)
      then show ?thesis
        using d3 nid nums Inl
        by (simp add: build_unfold [OF wf c1] cols_def [symmetric] df3_def [symmetric]
              kept_def [symmetric] Let_def)
    next
      case cast: (Inr ids0)
      then have cast': "astype_Int64 (map (\<lambda>r. id_number parse df (cell_at df r ''NORAD_CAT_ID''))
                                     (filter (has_id df) (rows df))) = Inr ids0"
        by (simp add: kept_def)
      define ids where "ids = map (\<lambda>r. coerce_id parse df (r ! iN)) (rows df3)"
      have "ids0 = map (\<lambda>r. coerce_id parse df (cell_at df r ''NORAD_CAT_ID'')) kept"
        using cast by (simp add: astype_Int64_Inr coerce_id_def o_def)
      also have "\<dots> = ids"
        using keepN
        by (simp add: ids_def df3_def cell_at_def cols_def [symmetric] iN_def [symmetric])
      finally have as: "astype_Int64 (to_numeric_coerce parse (get_col df3 ''norad_id'')) = Inr ids"
        using cast nums by simp
      have df4: "set_col df3 ''norad_id'' ids
                   = \<lparr>columns = map ren_id cols, rows = map H (map (norm_des df) kept)\<rparr>"
      proof -
        have "''norad_id'' \<in> set (columns df3)"
          using c1 by (force simp: df3_def ren_id_def cols_def)
        from set_col_existing [OF this, of "\<lambda>r. coerce_id parse df (r ! iN)"]
        show ?thesis
          by (simp add: ids_def df3_def ixN H_def)
      qed
      have b: "build_satcat_crosswalk parse df =
                 select_cols [''INTLDES'', ''norad_id'', ''SATNAME'', ''COUNTRY'', ''LAUNCH'', ''DECAY'']
                   \<lparr>columns = map ren_id cols, rows = map H (map (norm_des df) kept)\<rparr>"
      proof -
        have "columns df3 = map ren_id cols" by (simp add: df3_def)
        then show ?thesis
          using d3 nid as df4
          by (simp add: build_unfold [OF wf c1] cols_def [symmetric] df3_def [symmetric]
                kept_def [symmetric] Let_def)
      qed
      have inD: "''INTLDES'' \<in> set (map ren_id cols)" and inN: "''norad_id'' \<in> set (map ren_id cols)"
        using c1 by (force simp: ren_id_def cols_def)+
      have opt: "(name \<in> set (map ren_id cols)) = (name \<in> set cols)"
        if "name \<in> set optional_columns" for name
        using that by (auto simp: ren_id_def optional_columns_def)
      have flt: "filter (\<lambda>name. name \<notin> set (map ren_id cols))
                   [''INTLDES'', ''norad_id'', ''SATNAME'', ''COUNTRY'', ''LAUNCH'', ''DECAY'']
                 = filter (\<lambda>name. name \<notin> set cols) optional_columns"
      proof -
        have "filter (\<lambda>name. name \<notin> set (map ren_id cols)) optional_columns
                = filter (\<lambda>name. name \<notin> set cols) optional_columns"
          by (rule filter_cong [OF refl]) (use opt in simp)
        then show ?thesis
          using inD inN by (simp add: optional_columns_def)
      qed
      show ?thesis
      proof (cases "set optional_columns \<subseteq> set cols")
        case False
        then have "filter (\<lambda>name. name \<notin> set cols) optional_columns \<noteq> []"
          by (auto simp: filter_empty_conv)
        then show ?thesis
          using False nid cast' flt
          by (cases "filter (\<lambda>name. name \<notin> set cols) optional_columns")
             (simp_all add: b select_cols_def cols_def [symmetric])
      next
        case mem: True
        have row: "map (\<lambda>name. H (norm_des df r) ! col_index (map ren_id cols) name) crosswalk_columns
                     = crosswalk_row parse df r" if r: "r \<in> set kept" for r
        proof -
          have l: "length r = length cols" using r by (rule len)
          have other: "H (norm_des df r) ! col_index cols name = r ! col_index cols name"
            if "name \<in> set cols" "name \<noteq> ''INTLDES''" "name \<noteq> ''NORAD_CAT_ID''" for name
          proof -
            have "col_index cols name \<noteq> iD" "col_index cols name \<noteq> iN"
              using that c1 col_index_inj [of name cols] by (auto simp: iD_def iN_def cols_def)
            then show ?thesis by (simp add: H_def norm_des_def iD_def cols_def)
          qed
          have "H (norm_des df r) ! iD = CStr (normalize_str (py_str (r ! iD)))"
            using l iD neq by (simp add: H_def norm_des_def cell_at_def iD_def cols_def)
          moreover have "H (norm_des df r) ! iN = coerce_id parse df (r ! iN)"
            using l iN neq by (simp add: H_def norm_des_def iD_def cols_def)
          ultimately show ?thesis
            using mem other
            by (simp add: crosswalk_columns_def crosswalk_row_def cell_at_def ixN ix
                  iD_def [symmetric] iN_def [symmetric] cols_def [symmetric] optional_columns_def)
        qed
        have sub: "set [''INTLDES'', ''norad_id'', ''SATNAME'', ''COUNTRY'', ''LAUNCH'', ''DECAY'']
                     \<subseteq> set (columns \<lparr>columns = map ren_id cols, rows = map H (map (norm_des df) kept)\<rparr>)"
          using mem inD inN opt by (auto simp: optional_columns_def)
        have rw: "map (\<lambda>r. map (\<lambda>name. r ! col_index (map ren_id cols) name) crosswalk_columns)
                (map H (map (norm_des df) kept)) = map (crosswalk_row parse df) kept"
          unfolding map_map o_def using row by (intro map_cong) auto
        have "build_satcat_crosswalk parse df =
                Inr \<lparr>columns = crosswalk_columns,
                     rows = map (\<lambda>r. map (\<lambda>name. r ! col_index (map ren_id cols) name) crosswalk_columns)
                              (map H (map (norm_des df) kept))\<rparr>"
          unfolding b select_cols_ok [OF sub] crosswalk_columns_def cell_at_def by simp
        then have "build_satcat_crosswalk parse df =
                Inr \<lparr>columns = crosswalk_columns, rows = map (crosswalk_row parse df) kept\<rparr>"
          unfolding rw .
        then show ?thesis
          using mem nid cast' by (simp add: cols_def [symmetric] kept_def [symmetric])
      qed
    qed
  qed
qed

lemma build_value_error:
  assumes "wf_frame df"
  shows "(\<exists>msg. build_satcat_crosswalk parse df = Inl (ValueError msg))
           = (''INTLDES'' \<notin> set (columns df) \<or> ''NORAD_CAT_ID'' \<notin> set (columns df))"
proof (cases "''INTLDES'' \<in> set (columns df) \<and> ''NORAD_CAT_ID'' \<in> set (columns df)")
  case True
  then have c1: "''INTLDES'' \<in> set (columns df)" "''NORAD_CAT_ID'' \<in> set (columns df)"
    by simp_all
  have "build_satcat_crosswalk parse df \<noteq> Inl (ValueError msg)" for msg
    unfolding build_eq [OF assms c1]
    using astype_Int64_error
      [of "map (\<lambda>r. id_number parse df (cell_at df r ''NORAD_CAT_ID'')) (filter (has_id df) (rows df))"]
    by (auto split: sum.splits)
  then show ?thesis
    using c1 by simp
next
  case False
  then show ?thesis
    by (auto simp: build_satcat_crosswalk_def)
qed

lemma length_filter_compl:
  "length (filter (\<lambda>x. \<not> P x) xs) = length xs - length (filter P xs)"
  using sum_length_filter_compl [of P xs] by simp






text \<open>
  The 64-bit range and the rounding on small catalogs: the largest 64-bit integer is
  kept, the next integer is rejected; beside an identifier that is not a number the
  column is a column of doubles, \<open>2 ^ 53 + 1\<close> comes back as \<open>2 ^ 53\<close> and
  \<open>2 ^ 63 - 1\<close>, rounded to \<open>2 ^ 63\<close>, is rejected; a fractional number is
  rejected; an infinite number overflows when it is the largest value of the column, or
  when the largest value has a fractional part.
\<close>

lemma build_int64_examples:
  "build_satcat_crosswalk digits_only (id_catalog [CInt (2 ^ 63 - 1)])
     = Inr \<lparr>columns = crosswalk_columns,
            rows = [[CStr ''2020-001A'', CInt (2 ^ 63 - 1), CNaN, CNaN, CNaN, CNaN]]\<rparr>"
  "build_satcat_crosswalk digits_only (id_catalog [CInt (2 ^ 63)]) = Inl TypeError"
  "build_satcat_crosswalk digits_only (id_catalog [CInt (2 ^ 53 + 1), CStr ''abc''])
     = Inr \<lparr>columns = crosswalk_columns,
            rows = [[CStr ''2020-001A'', CInt (2 ^ 53), CNaN, CNaN, CNaN, CNaN],
                    [CStr ''2020-001A'', CNA, CNaN, CNaN, CNaN, CNaN]]\<rparr>"
  "build_satcat_crosswalk digits_only (id_catalog [CInt (2 ^ 63 - 1), CStr ''abc'']) = Inl TypeError"
  "build_satcat_crosswalk sample_parse (id_catalog [CInt 5, CStr ''1.5'']) = Inl TypeError"
  "build_satcat_crosswalk sample_parse (id_catalog [CInt 5, CStr ''inf'']) = Inl error.OverflowError"
  "build_satcat_crosswalk sample_parse (id_catalog [CStr ''1.5'', CStr ''inf'']) = Inl error.OverflowError"
  "build_satcat_crosswalk sample_parse (id_catalog [CStr ''-inf'', CInt 5]) = Inl TypeError"
  "build_satcat_crosswalk sample_parse (id_catalog [CStr ''-inf'', CStr ''1.5'']) = Inl error.OverflowError"
  "build_satcat_crosswalk sample_parse (id_catalog [CStr ''-inf'']) = Inl error.OverflowError"
  by code_simp+

section \<open>Claims about the crosswalk build\<close>



text \<open>
  C10. Normalising turns every cell into a string first, so a missing designator
  becomes the string \<open>NAN\<close> (or \<open>NONE\<close>) and no normalised designator is ever
  missing. The rows of the crosswalk are therefore the rows of the catalog whose
  identifier is present: the number of rows dropped is the number of rows with a
  missing identifier, whatever their designators are.
\<close>

theorem missing_designator_is_kept:
  assumes "wf_frame df" and "build_satcat_crosswalk parse df = Inr xw"
  shows "normalize_intldes [CNaN] = [CStr ''NAN'']
     \<and> normalize_intldes [CNone] = [CStr ''NONE'']
     \<and> list_all (\<lambda>c. \<not> isna c) (normalize_intldes series)
     \<and> rows xw = map (crosswalk_row parse df)
                    (filter (\<lambda>r. \<not> isna (cell_at df r ''NORAD_CAT_ID'')) (rows df))
     \<and> length (rows xw)
         = length (rows df) - length (filter (\<lambda>r. isna (cell_at df r ''NORAD_CAT_ID'')) (rows df))"
proof -
  have c1: "''INTLDES'' \<in> set (columns df)" "''NORAD_CAT_ID'' \<in> set (columns df)"
    using assms(2) by (auto simp: build_satcat_crosswalk_def split: if_splits)
  have r: "rows xw = map (crosswalk_row parse df)
                    (filter (\<lambda>r. \<not> isna (cell_at df r ''NORAD_CAT_ID'')) (rows df))"
    using assms(2) unfolding build_eq [OF assms(1) c1]
    by (auto simp: has_id_def [abs_def] split: if_splits sum.splits)
  have n1: "normalize_intldes [CNaN] = [CStr ''NAN'']" by code_simp
  have n2: "normalize_intldes [CNone] = [CStr ''NONE'']" by code_simp
  have n3: "list_all (\<lambda>c. \<not> isna c) (normalize_intldes series)"
    by (simp add: normalize_intldes_map list_all_iff)
  show ?thesis
    using n1 n2 n3 r by (simp add: length_filter_compl)
qed

theorem missing_designator_is_kept_witness:
  "wf_frame catalog_example
   \<and> build_satcat_crosswalk digits_only catalog_example = Inr crosswalk_example
   \<and> cell_at catalog_example (rows catalog_example ! 1) ''INTLDES'' = CNaN
   \<and> rows crosswalk_example ! 1
       = [CStr ''NAN'', CInt 5, CStr ''VANGUARD 1'', CStr ''US'', CStr ''1958-03-17'', CNaN]
   \<and> length (rows crosswalk_example) = 4 - 1"
proof -
  have h1: "wf_frame catalog_example" by code_simp
  have h2: "build_satcat_crosswalk digits_only catalog_example = Inr crosswalk_example" by code_simp
  have h3: "cell_at catalog_example (rows catalog_example ! 1) ''INTLDES'' = CNaN" by code_simp
  have h4: "rows crosswalk_example ! 1
       = [CStr ''NAN'', CInt 5, CStr ''VANGUARD 1'', CStr ''US'', CStr ''1958-03-17'', CNaN]"
    by code_simp
  have h5: "length (rows catalog_example) = 4" by code_simp
  have h6: "length (filter (\<lambda>r. isna (cell_at catalog_example r ''NORAD_CAT_ID'')) (rows catalog_example)) = 1"
    by code_simp
  from missing_designator_is_kept [OF h1 h2, of "[]"]
  have "length (rows crosswalk_example)
          = length (rows catalog_example)
            - length (filter (\<lambda>r. isna (cell_at catalog_example r ''NORAD_CAT_ID'')) (rows catalog_example))"
    by blast
  then have h7: "length (rows crosswalk_example) = 4 - 1"
    unfolding h5 h6 .
  show ?thesis
    using h1 h2 h3 h4 h7 by blast
qed

text \<open>
  C8. A catalog that has the designator and the identifier columns and nothing else
  passes the guard of \<open>build_satcat_crosswalk\<close>, and the projection then raises
  \<open>KeyError\<close> for the four columns the guard does not check. In the same way
  external data whose designator column is itself called \<open>INTLDES\<close> passes the guard
  of \<open>merge_unoosa_with_crosswalk\<close>, and dropping the crosswalk's key column then
  raises \<open>KeyError\<close>, the two columns having been renamed apart by the join.
\<close>

theorem schema_errors_beyond_the_guard:
  "wf_frame minimal_catalog
   \<and> ''INTLDES'' \<in> set (columns minimal_catalog) \<and> ''NORAD_CAT_ID'' \<in> set (columns minimal_catalog)
   \<and> build_satcat_crosswalk digits_only minimal_catalog
       = Inl (KeyError [''SATNAME'', ''COUNTRY'', ''LAUNCH'', ''DECAY''])
   \<and> merge_unoosa_with_crosswalk \<lparr>columns = [''INTLDES''], rows = [[CStr ''1998-067A'']]\<rparr>
         crosswalk_example ''INTLDES'' = Inl (KeyError [''INTLDES''])"
  by code_simp

theorem schema_errors_beyond_the_guard_witness:
  "build_satcat_crosswalk digits_only minimal_catalog
     = Inl (KeyError [''SATNAME'', ''COUNTRY'', ''LAUNCH'', ''DECAY''])"
  using schema_errors_beyond_the_guard by blast

section \<open>The left join\<close>

lemma set_col_keyed:
  "set_col ext ''intldes'' (normalize_intldes (get_col ext col)) =
     \<lparr>columns = (if ''intldes'' \<in> set (columns ext) then columns ext else columns ext @ [''intldes'']),
      rows = map (keyed_row ext col) (rows ext)\<rparr>"
proof -
  have n: "normalize_intldes (get_col ext col) = map (row_key ext col) (rows ext)"
    by (simp add: normalize_intldes_map get_col_def o_def row_key_def [abs_def])
  show ?thesis
    unfolding n set_col_def
    by (simp add: map_zip_same keyed_row_def [abs_def])
qed

lemma suffix_x_neq: "c @ ''_x'' \<noteq> ''INTLDES''"
proof
  assume "c @ ''_x'' = ''INTLDES''"
  then have "last (c @ ''_x'') = last ''INTLDES''" by simp
  then show False by simp
qed

lemma suffix_y_neq: "c @ ''_y'' \<noteq> ''INTLDES''"
proof
  assume "c @ ''_y'' = ''INTLDES''"
  then have "last (c @ ''_y'') = last ''INTLDES''" by simp
  then show False by simp
qed

lemma strip_labels:
  "map snd (filter (\<lambda>(c, v). c \<noteq> ''INTLDES'')
      (zip (map (\<lambda>c. if c \<in> S then c @ ''_y'' else c) cs) x))
   = map snd (filter (\<lambda>(c, v). c \<noteq> ''INTLDES'' \<or> c \<in> S) (zip cs x))"
proof (induction cs arbitrary: x)
  case Nil
  then show ?case by simp
next
  case (Cons c cs)
  then show ?case by (cases x) (auto simp: suffix_y_neq)
qed

lemma drop_columns_Inr:
  assumes "drop_columns names df = Inr res"
  shows "set names \<subseteq> set (columns df)"
    and "rows res = map (\<lambda>r. map snd (filter (\<lambda>(c, v). c \<notin> set names) (zip (columns df) r))) (rows df)"
proof -
  have e: "filter (\<lambda>name. name \<notin> set (columns df)) names = []"
    using assms by (cases "filter (\<lambda>name. name \<notin> set (columns df)) names")
      (simp_all add: drop_columns_def)
  then show "set names \<subseteq> set (columns df)"
    by (auto simp: filter_empty_conv)
  show "rows res = map (\<lambda>r. map snd (filter (\<lambda>(c, v). c \<notin> set names) (zip (columns df) r))) (rows df)"
    using assms e by (auto simp add: drop_columns_def)
qed

lemma keyed_row_key:
  assumes "length r = length (columns ext)"
  shows "keyed_row ext col r !
           col_index (if ''intldes'' \<in> set (columns ext) then columns ext else columns ext @ [''intldes''])
             ''intldes'' = row_key ext col r"
proof (cases "''intldes'' \<in> set (columns ext)")
  case True
  then show ?thesis
    using assms col_index_less [of "''intldes''" "columns ext"] by (simp add: keyed_row_def)
next
  case False
  then have "col_index (columns ext @ [''intldes'']) ''intldes'' = length (columns ext)"
    by (simp add: col_index_def takeWhile_append)
  then show ?thesis
    using False assms by (simp add: keyed_row_def nth_append)
qed

lemma length_keyed_row:
  "length (keyed_row ext col r) =
     (if ''intldes'' \<in> set (columns ext) then length r else Suc (length r))"
  by (simp add: keyed_row_def)

lemma merge_rows:
  assumes wfe: "wf_frame ext" and wfx: "wf_frame xw"
    and m: "merge_unoosa_with_crosswalk ext xw col = Inr m"
  shows "rows m = concat (map (joined_rows ext xw col) (rows ext))"
proof -
  define dcols where
    "dcols = (if ''intldes'' \<in> set (columns ext) then columns ext else columns ext @ [''intldes''])"
  define df where "df = \<lparr>columns = dcols, rows = map (keyed_row ext col) (rows ext)\<rparr>"
  define S where "S = set (filter (\<lambda>c. c \<in> set (columns xw)) dcols)"
  define ll where "ll = map (\<lambda>c. if c \<in> S then c @ ''_x'' else c) dcols"
  define rl where "rl = map (\<lambda>c. if c \<in> S then c @ ''_y'' else c) (columns xw)"
  define li where "li = col_index dcols ''intldes''"
  define ri where "ri = col_index (columns xw) ''INTLDES''"
  define g where "g = (\<lambda>l. case filter (\<lambda>r. key_eq (l ! li) (r ! ri)) (rows xw) of
                           [] \<Rightarrow> [l @ replicate (length (columns xw)) CNaN]
                         | ms \<Rightarrow> map (\<lambda>r. l @ r) ms)"
  define strip where
    "strip = (\<lambda>r :: cell list. map snd (filter (\<lambda>(c, v). c \<notin> set [''INTLDES'']) (zip (ll @ rl) r)))"
  have sk: "set_col ext ''intldes'' (normalize_intldes (get_col ext col)) = df"
    by (simp add: set_col_keyed df_def dcols_def)
  obtain merged d where pm: "pd_merge_left df xw ''intldes'' ''INTLDES'' = Inr merged"
    and dc: "drop_columns [''INTLDES''] merged = Inr d"
    and md: "m = rename_col ''SATNAME'' ''satcat_satname'' d"
    using m unfolding merge_unoosa_with_crosswalk_def sk Let_def
    by (auto split: if_splits sum.splits)
  have inx: "''INTLDES'' \<in> set (columns xw)"
    using pm by (auto simp: pd_merge_left_def Let_def split: if_splits)
  have mg: "merged = \<lparr>columns = ll @ rl, rows = concat (map g (rows df))\<rparr>"
    using pm
    unfolding pd_merge_left_def Let_def
    by (auto simp: df_def ll_def rl_def S_def g_def li_def ri_def split: if_splits)
  have rd: "rows d = map strip (concat (map g (rows df)))"
    using drop_columns_Inr(2) [OF dc] by (simp add: mg strip_def)
  have inl: "''INTLDES'' \<in> set (ll @ rl)"
    using drop_columns_Inr(1) [OF dc] by (simp add: mg)
  have nll: "''INTLDES'' \<notin> set ll"
  proof
    assume "''INTLDES'' \<in> set ll"
    then obtain c where c: "c \<in> set dcols" "(if c \<in> S then c @ ''_x'' else c) = ''INTLDES''"
      by (auto simp: ll_def)
    then have "c = ''INTLDES''" "c \<notin> S"
      by (auto simp: suffix_x_neq split: if_splits)
    then show False using c(1) inx by (simp add: S_def)
  qed
  have nS: "''INTLDES'' \<notin> S"
  proof -
    from inl nll obtain c where "c \<in> set (columns xw)" "(if c \<in> S then c @ ''_y'' else c) = ''INTLDES''"
      by (auto simp: rl_def)
    then show ?thesis by (auto simp: suffix_y_neq split: if_splits)
  qed
  have lenl: "length (keyed_row ext col r) = length ll" if "r \<in> set (rows ext)" for r
    using wf_frame_row [OF wfe that] by (simp add: length_keyed_row ll_def dcols_def)
  have st: "strip (keyed_row ext col r @ x) = keyed_row ext col r @ catalog_fields xw x"
    if r: "r \<in> set (rows ext)" for r x
  proof -
    have a: "filter (\<lambda>(c, v). c \<noteq> ''INTLDES'') (zip ll (keyed_row ext col r)) = zip ll (keyed_row ext col r)"
      using nll by (auto simp: filter_id_conv dest: set_zip_leftD)
    have b: "(\<lambda>(c, v). c \<noteq> ''INTLDES'' \<or> c \<in> S) = (\<lambda>(c, v :: cell). c \<noteq> ''INTLDES'')"
      using nS by auto
    have "strip (keyed_row ext col r @ x)
            = map snd (zip ll (keyed_row ext col r))
              @ map snd (filter (\<lambda>(c, v). c \<noteq> ''INTLDES'') (zip rl x))"
      using lenl [OF r] a by (simp add: strip_def zip_append)
    also have "map snd (zip ll (keyed_row ext col r)) = keyed_row ext col r"
      using lenl [OF r] by (simp add: map_snd_zip)
    also have "map snd (filter (\<lambda>(c, v). c \<noteq> ''INTLDES'') (zip rl x)) = catalog_fields xw x"
      unfolding rl_def strip_labels b catalog_fields_def ..
    finally show ?thesis .
  qed
  have key: "keyed_row ext col r ! li = row_key ext col r" if "r \<in> set (rows ext)" for r
    using keyed_row_key [OF wf_frame_row [OF wfe that]] by (simp add: li_def dcols_def)
  have gj: "map strip (g (keyed_row ext col r)) = joined_rows ext xw col r"
    if r: "r \<in> set (rows ext)" for r
  proof -
    have f: "filter (\<lambda>x. key_eq (keyed_row ext col r ! li) (x ! ri)) (rows xw)
               = matches xw (row_key ext col r)"
      by (simp add: key [OF r] matches_def cell_at_def ri_def)
    show ?thesis
    proof (cases "matches xw (row_key ext col r)")
      case Nil
      then show ?thesis
        using st [OF r] by (simp add: g_def f joined_rows_def)
    next
      case (Cons a as)
      then show ?thesis
        using st [OF r] by (simp add: g_def f joined_rows_def)
    qed
  qed
  have "rows m = rows d" by (simp add: md rename_col_def)
  also have "\<dots> = concat (map (\<lambda>r. map strip (g (keyed_row ext col r))) (rows ext))"
    by (simp add: rd df_def map_concat o_def)
  also have "\<dots> = concat (map (joined_rows ext xw col) (rows ext))"
    using gj by (intro arg_cong [where f = concat] map_cong) auto
  finally show ?thesis .
qed

lemma merge_value_error:
  "(\<exists>msg. merge_unoosa_with_crosswalk ext xw col = Inl (ValueError msg))
     = (col \<notin> set (columns ext))"
  by (auto simp: merge_unoosa_with_crosswalk_def pd_merge_left_def drop_columns_def Let_def
           split: sum.splits list.splits if_splits)

lemma joined_rows_alt:
  "joined_rows ext xw col r =
     (if matches xw (row_key ext col r) = [] then [keyed_row ext col r @ missing_fields xw]
      else map (\<lambda>x. keyed_row ext col r @ catalog_fields xw x) (matches xw (row_key ext col r)))"
  by (simp add: joined_rows_def missing_fields_def)

lemma missing_fields_isna: "list_all isna (missing_fields xw)"
proof -
  have "set (map snd (filter P (zip cs (replicate n CNaN)))) \<subseteq> {CNaN}" for P n and cs :: "string list"
    by (auto dest!: set_zip_rightD)
  then have "set (missing_fields xw) \<subseteq> {CNaN}"
    unfolding missing_fields_def catalog_fields_def by blast
  then show ?thesis
    by (auto simp: list_all_iff)
qed

lemma take_joined_rows:
  assumes "length (keyed_row ext col r) = n"
  shows "map (take n) (joined_rows ext xw col r)
           = replicate (max 1 (length (matches xw (row_key ext col r)))) (keyed_row ext col r)"
proof (cases "matches xw (row_key ext col r) = []")
  case True
  then show ?thesis using assms by (simp add: joined_rows_alt)
next
  case False
  then have "max 1 (length (matches xw (row_key ext col r))) = length (matches xw (row_key ext col r))"
    by (cases "matches xw (row_key ext col r)") auto
  then show ?thesis
    using False assms by (simp add: joined_rows_alt o_def map_replicate_const)
qed

lemma merge_left_parts:
  assumes wfe: "wf_frame ext" and wfx: "wf_frame xw"
    and m: "merge_unoosa_with_crosswalk ext xw col = Inr m"
  shows "map (take (left_width ext)) (rows m)
           = concat (map (\<lambda>r. replicate (max 1 (length (matches xw (row_key ext col r))))
                                (keyed_row ext col r)) (rows ext))"
proof -
  have "map (take (left_width ext)) (joined_rows ext xw col r)
          = replicate (max 1 (length (matches xw (row_key ext col r)))) (keyed_row ext col r)"
    if "r \<in> set (rows ext)" for r
    using wf_frame_row [OF wfe that]
    by (intro take_joined_rows) (simp add: length_keyed_row left_width_def)
  then show ?thesis
    unfolding merge_rows [OF wfe wfx m] map_concat map_map o_def
    by (intro arg_cong [where f = concat] map_cong) auto
qed

lemma count_list_replicate: "count_list (replicate n a) l = (if a = l then n else 0)"
  by (induction n) auto

lemma count_list_expand:
  assumes "\<And>r. r \<in> set xs \<Longrightarrow> 1 \<le> k r"
  shows "count_list (map f xs) l \<le> count_list (concat (map (\<lambda>r. replicate (k r) (f r)) xs)) l"
  using assms
proof (induction xs)
  case Nil
  then show ?case by simp
next
  case (Cons a xs)
  have "1 \<le> k a" using Cons.prems by simp
  moreover have "count_list (map f xs) l \<le> count_list (concat (map (\<lambda>r. replicate (k r) (f r)) xs)) l"
    using Cons by simp
  ultimately show ?case
    by (auto simp: count_list_replicate)
qed

lemma concat_replicate_one:
  assumes "\<And>r. r \<in> set xs \<Longrightarrow> k r = 1"
  shows "concat (map (\<lambda>r. replicate (k r) (f r)) xs) = map f xs"
  using assms by (induction xs) auto

section \<open>Claims about the merge\<close>

text \<open>
  C3, as amended. \<open>merge_unoosa_with_crosswalk\<close> is a left outer join on the
  normalised designator. When it returns, the output is, for each external row in
  order, one row per crosswalk row with the same designator, or one row with every
  catalog field missing when there is none. The external part of the output (its first
  columns) is each external row repeated once per match and at least once, so no
  external row is dropped and its count in the output is never below its count in the
  input; the counts are equal, and the external part is the external data itself, when
  no external row matches more than one crosswalk row.
\<close>

theorem merge_left_join:
  assumes "wf_frame ext" and "wf_frame xw"
    and "merge_unoosa_with_crosswalk ext xw col = Inr m"
  shows "rows m = concat (map (joined_rows ext xw col) (rows ext))
     \<and> map (take (left_width ext)) (rows m)
         = concat (map (\<lambda>r. replicate (max 1 (length (matches xw (row_key ext col r))))
                             (keyed_row ext col r)) (rows ext))
     \<and> (\<forall>l. count_list (map (keyed_row ext col) (rows ext)) l
              \<le> count_list (map (take (left_width ext)) (rows m)) l)
     \<and> (\<forall>r \<in> set (rows ext). matches xw (row_key ext col r) = [] \<longrightarrow>
            joined_rows ext xw col r = [keyed_row ext col r @ missing_fields xw])
     \<and> list_all isna (missing_fields xw)
     \<and> ((\<forall>r \<in> set (rows ext). length (matches xw (row_key ext col r)) \<le> 1) \<longrightarrow>
            map (take (left_width ext)) (rows m) = map (keyed_row ext col) (rows ext))"
proof (intro conjI)
  show "rows m = concat (map (joined_rows ext xw col) (rows ext))"
    using assms by (rule merge_rows)
  show lp: "map (take (left_width ext)) (rows m)
         = concat (map (\<lambda>r. replicate (max 1 (length (matches xw (row_key ext col r))))
                             (keyed_row ext col r)) (rows ext))"
    using assms by (rule merge_left_parts)
  show "\<forall>l. count_list (map (keyed_row ext col) (rows ext)) l
              \<le> count_list (map (take (left_width ext)) (rows m)) l"
    unfolding lp by (intro allI count_list_expand) simp
  show "\<forall>r \<in> set (rows ext). matches xw (row_key ext col r) = [] \<longrightarrow>
            joined_rows ext xw col r = [keyed_row ext col r @ missing_fields xw]"
    by (simp add: joined_rows_alt)
  show "list_all isna (missing_fields xw)"
    by (rule missing_fields_isna)
  show "(\<forall>r \<in> set (rows ext). length (matches xw (row_key ext col r)) \<le> 1) \<longrightarrow>
            map (take (left_width ext)) (rows m) = map (keyed_row ext col) (rows ext)"
  proof
    assume "\<forall>r \<in> set (rows ext). length (matches xw (row_key ext col r)) \<le> 1"
    then have "max 1 (length (matches xw (row_key ext col r))) = 1" if "r \<in> set (rows ext)" for r
      using that by (force simp: max_def)
    then show "map (take (left_width ext)) (rows m) = map (keyed_row ext col) (rows ext)"
      unfolding lp by (rule concat_replicate_one)
  qed
qed

theorem merge_left_join_witness:
  "wf_frame external_example \<and> wf_frame crosswalk_example
   \<and> merge_unoosa_with_crosswalk external_example crosswalk_example ''international_designator''
       = Inr merged_example
   \<and> map (take 3) (rows merged_example)
       = [[CStr ''Zarya'', CStr ''1998-067a'', CStr ''1998-067A''],
          [CStr ''Unregistered'', CStr ''2030-001A'', CStr ''2030-001A'']]
   \<and> list_all isna (missing_fields crosswalk_example)"
proof -
  have h1: "wf_frame external_example" by code_simp
  have h2: "wf_frame crosswalk_example" by code_simp
  have h3: "merge_unoosa_with_crosswalk external_example crosswalk_example ''international_designator''
              = Inr merged_example" by code_simp
  have "map (take 3) (rows merged_example)
       = [[CStr ''Zarya'', CStr ''1998-067a'', CStr ''1998-067A''],
          [CStr ''Unregistered'', CStr ''2030-001A'', CStr ''2030-001A'']]" by code_simp
  then show ?thesis
    using h1 h2 h3 merge_left_join [OF h1 h2 h3] by simp
qed

text \<open>
  C3 as stated fails where a designator occurs twice in the crosswalk: a catalog that
  lists a designator twice gives a crosswalk with two rows for it, and an external row
  with that designator, present once in the input, is twice in the output.
\<close>

theorem merge_row_count_counterexample:
  "build_satcat_crosswalk digits_only duplicate_catalog = Inr duplicate_crosswalk
   \<and> merge_unoosa_with_crosswalk single_external duplicate_crosswalk ''international_designator''
       = Inr duplicate_merged
   \<and> count_list (rows single_external) [CStr ''2020-001A''] = 1
   \<and> count_list (map (take 1) (rows duplicate_merged)) [CStr ''2020-001A''] = 2
   \<and> length (rows single_external) = 1 \<and> length (rows duplicate_merged) = 2"
  by code_simp

section \<open>The retry loop, event by event\<close>

lemma get_tle_body_hit:
  "read_cache w norad_id = Some data \<Longrightarrow> get_tle_body self net norad_id w = (Inr data, w)"
  by (simp add: get_tle_body_def)

lemma get_tle_body_miss:
  assumes "read_cache w norad_id = None"
  shows "get_tle_body self net norad_id w =
     (case attempt_result self (net (requests w)) of
        Inl e \<Rightarrow> (Inl e, \<lparr>cache = cache w, requests = Suc (requests w),
                         events = events w @ [HttpGet (tle_url self norad_id)]\<rparr>)
      | Inr data \<Rightarrow> (Inr data, \<lparr>cache = (cache w)(norad_id \<mapsto> json_dumps data),
                              requests = Suc (requests w),
                              events = events w @ live_fetch self norad_id\<rparr>))"
proof (cases "net (requests w)")
  case ConnectionFailed
  then show ?thesis
    using assms by (simp add: get_tle_body_def attempt_result_def Let_def)
next
  case (Response status body)
  then show ?thesis
    using assms
    by (cases body) (simp_all add: get_tle_body_def attempt_result_def live_fetch_def Let_def)
qed

lemma retries_Suc:
  "retries url a (Suc k) = [HttpGet url, RetrySleep (wait_exponential a)] @ retries url (Suc a) k"
proof -
  have "[a ..< a + Suc k] = a # [Suc a ..< Suc a + k]"
    by (simp add: upt_conv_Cons)
  then show ?thesis
    by (simp add: retries_def)
qed

lemma retrying_hit:
  "read_cache w norad_id = Some data \<Longrightarrow> retrying self net norad_id a w = (Inr data, w)"
  by (subst retrying.simps) (simp add: get_tle_body_hit)

text \<open>
  A call that starts without a usable cache entry makes \<open>k\<close> failed attempts, each
  followed by its backoff, and then either succeeds, or fails a last time at the fifth
  attempt and raises.
\<close>

lemma retrying_miss:
  assumes "read_cache w norad_id = None" and "a \<le> 5"
  shows "\<exists>k. k \<le> 5 - a
     \<and> (\<forall>i<k. \<exists>e. attempt_result self (net (requests w + i)) = Inl e)
     \<and> (case attempt_result self (net (requests w + k)) of
          Inr data \<Rightarrow>
            retrying self net norad_id a w =
              (Inr data, \<lparr>cache = (cache w)(norad_id \<mapsto> json_dumps data),
                          requests = requests w + k + 1,
                          events = events w @ retries (tle_url self norad_id) a k
                                     @ live_fetch self norad_id\<rparr>)
        | Inl e \<Rightarrow>
            k = 5 - a \<and>
            retrying self net norad_id a w =
              (Inl (RetryError e), \<lparr>cache = cache w, requests = requests w + k + 1,
                 events = events w @ retries (tle_url self norad_id) a k
                            @ [HttpGet (tle_url self norad_id)]\<rparr>))"
  using assms
proof (induction "5 - a" arbitrary: a w)
  case 0
  then have a: "a = 5" by simp
  show ?case
  proof (cases "attempt_result self (net (requests w))")
    case (Inl e)
    then have "retrying self net norad_id a w =
        (Inl (RetryError e), \<lparr>cache = cache w, requests = Suc (requests w),
           events = events w @ [HttpGet (tle_url self norad_id)]\<rparr>)"
      using 0 a
      by (subst retrying.simps) (simp add: get_tle_body_miss stop_after_attempt_def)
    then show ?thesis
      using Inl a by (intro exI [of _ 0]) (simp add: retries_def)
  next
    case (Inr data)
    then have "retrying self net norad_id a w =
        (Inr data, \<lparr>cache = (cache w)(norad_id \<mapsto> json_dumps data),
                      requests = Suc (requests w),
                      events = events w @ live_fetch self norad_id\<rparr>)"
      using 0 by (subst retrying.simps) (simp add: get_tle_body_miss)
    then show ?thesis
      using Inr by (intro exI [of _ 0]) (simp add: retries_def)
  qed
next
  case (Suc n)
  then have a: "a < 5" by simp
  show ?case
  proof (cases "attempt_result self (net (requests w))")
    case (Inr data)
    then have "retrying self net norad_id a w =
        (Inr data, \<lparr>cache = (cache w)(norad_id \<mapsto> json_dumps data),
                      requests = Suc (requests w),
                      events = events w @ live_fetch self norad_id\<rparr>)"
      using Suc.prems by (subst retrying.simps) (simp add: get_tle_body_miss)
    then show ?thesis
      using Inr by (intro exI [of _ 0]) (simp add: retries_def)
  next
    case (Inl e)
    define w2 where "w2 = \<lparr>cache = cache w, requests = Suc (requests w),
        events = events w @ [HttpGet (tle_url self norad_id), RetrySleep (wait_exponential a)]\<rparr>"
    have step: "retrying self net norad_id a w = retrying self net norad_id (Suc a) w2"
      using Inl Suc.prems a
      by (subst retrying.simps) (simp add: get_tle_body_miss stop_after_attempt_def w2_def)
    have r2: "read_cache w2 norad_id = None"
      using Suc.prems by (simp add: read_cache_def w2_def)
    have "n = 5 - Suc a" "Suc a \<le> 5" using Suc.hyps a by simp_all
    from Suc.hyps(1) [OF this(1) r2 this(2)]
    obtain k where k: "k \<le> 5 - Suc a"
      and f: "\<forall>i<k. \<exists>e. attempt_result self (net (requests w2 + i)) = Inl e"
      and c: "(case attempt_result self (net (requests w2 + k)) of
          Inr data \<Rightarrow>
            retrying self net norad_id (Suc a) w2 =
              (Inr data, \<lparr>cache = (cache w2)(norad_id \<mapsto> json_dumps data),
                          requests = requests w2 + k + 1,
                          events = events w2 @ retries (tle_url self norad_id) (Suc a) k
                                     @ live_fetch self norad_id\<rparr>)
        | Inl e \<Rightarrow>
            k = 5 - Suc a \<and>
            retrying self net norad_id (Suc a) w2 =
              (Inl (RetryError e), \<lparr>cache = cache w2, requests = requests w2 + k + 1,
                 events = events w2 @ retries (tle_url self norad_id) (Suc a) k
                            @ [HttpGet (tle_url self norad_id)]\<rparr>))"
      by blast
    have f': "\<forall>i<Suc k. \<exists>e. attempt_result self (net (requests w + i)) = Inl e"
    proof (intro allI impI)
      fix i assume "i < Suc k"
      show "\<exists>e. attempt_result self (net (requests w + i)) = Inl e"
      proof (cases i)
        case 0
        then show ?thesis using Inl by simp
      next
        case (Suc j)
        then have "j < k" using \<open>i < Suc k\<close> by simp
        then show ?thesis using f Suc by (simp add: w2_def)
      qed
    qed
    have "Suc k \<le> 5 - a" using k a by simp
    moreover have "(case attempt_result self (net (requests w + Suc k)) of
          Inr data \<Rightarrow>
            retrying self net norad_id a w =
              (Inr data, \<lparr>cache = (cache w)(norad_id \<mapsto> json_dumps data),
                          requests = requests w + Suc k + 1,
                          events = events w @ retries (tle_url self norad_id) a (Suc k)
                                     @ live_fetch self norad_id\<rparr>)
        | Inl e \<Rightarrow>
            Suc k = 5 - a \<and>
            retrying self net norad_id a w =
              (Inl (RetryError e), \<lparr>cache = cache w, requests = requests w + Suc k + 1,
                 events = events w @ retries (tle_url self norad_id) a (Suc k)
                            @ [HttpGet (tle_url self norad_id)]\<rparr>))"
      using c a k unfolding step retries_Suc
      by (auto simp: w2_def split: sum.splits)
    ultimately show ?thesis
      using f' by blast
  qed
qed

lemma retry_sleeps_append: "retry_sleeps (xs @ ys) = retry_sleeps xs @ retry_sleeps ys"
  by (induction xs rule: retry_sleeps.induct) auto

lemma polite_sleeps_append: "polite_sleeps (xs @ ys) = polite_sleeps xs @ polite_sleeps ys"
  by (induction xs rule: polite_sleeps.induct) auto

lemma retry_sleeps_retries: "retry_sleeps (retries url a k) = map wait_exponential [a ..< a + k]"
proof (induction k arbitrary: a)
  case 0
  then show ?case by (simp add: retries_def)
next
  case (Suc k)
  have "[a ..< a + Suc k] = a # [Suc a ..< Suc a + k]"
    by (simp add: upt_conv_Cons)
  then show ?case
    using Suc [of "Suc a"] by (simp add: retries_Suc)
qed

lemma polite_sleeps_retries: "polite_sleeps (retries url a k) = []"
proof (induction k arbitrary: a)
  case 0
  then show ?case by (simp add: retries_def)
next
  case (Suc k)
  then show ?case by (simp add: retries_Suc)
qed

lemma wait_schedule:
  assumes "k \<le> 4"
  shows "map wait_exponential [1 ..< 1 + k] = take k [1, 2, 4, 8]"
proof -
  from assms consider "k = 0" | "k = 1" | "k = 2" | "k = 3" | "k = 4" by linarith
  then show ?thesis
    by cases (simp_all add: wait_exponential_def upt_conv_Cons)
qed

lemma wait_exponential_eq:
  "wait_exponential n = (if 2 ^ (n - 1) \<le> (60 :: int) then 2 ^ (n - 1) else 60)"
  by (simp add: wait_exponential_def max_def min_def)

lemma get_tle_hit:
  "read_cache w norad_id = Some data \<Longrightarrow> get_tle self net norad_id w = (Inr data, w)"
  unfolding get_tle_def by (rule retrying_hit)

lemma get_tle_miss:
  assumes "read_cache w norad_id = None"
  shows "\<exists>k \<le> 4.
       (\<forall>i<k. \<exists>e. attempt_result self (net (requests w + i)) = Inl e)
     \<and> (case attempt_result self (net (requests w + k)) of
          Inr data \<Rightarrow>
            get_tle self net norad_id w =
              (Inr data, \<lparr>cache = (cache w)(norad_id \<mapsto> json_dumps data),
                          requests = requests w + k + 1,
                          events = events w @ retries (tle_url self norad_id) 1 k
                                     @ live_fetch self norad_id\<rparr>)
        | Inl e \<Rightarrow>
            k = 4 \<and>
            get_tle self net norad_id w =
              (Inl (RetryError e), \<lparr>cache = cache w, requests = requests w + k + 1,
                 events = events w @ retries (tle_url self norad_id) 1 k
                            @ [HttpGet (tle_url self norad_id)]\<rparr>))"
proof -
  have "(1::nat) \<le> 5" by simp
  from retrying_miss [OF assms this, of self net]
  obtain k where "k \<le> 5 - 1"
    and "\<forall>i<k. \<exists>e. attempt_result self (net (requests w + i)) = Inl e"
    and "(case attempt_result self (net (requests w + k)) of
          Inr data \<Rightarrow>
            retrying self net norad_id 1 w =
              (Inr data, \<lparr>cache = (cache w)(norad_id \<mapsto> json_dumps data),
                          requests = requests w + k + 1,
                          events = events w @ retries (tle_url self norad_id) 1 k
                                     @ live_fetch self norad_id\<rparr>)
        | Inl e \<Rightarrow>
            k = 5 - 1 \<and>
            retrying self net norad_id 1 w =
              (Inl (RetryError e), \<lparr>cache = cache w, requests = requests w + k + 1,
                 events = events w @ retries (tle_url self norad_id) 1 k
                            @ [HttpGet (tle_url self norad_id)]\<rparr>))"
    by blast
  then show ?thesis
    unfolding get_tle_def
    by (intro exI [of _ k]) (simp split: sum.splits)
qed

lemma read_cache_written:
  "read_cache \<lparr>cache = c(norad_id \<mapsto> json_dumps data), requests = n, events = es\<rparr> norad_id = Some data"
  by (simp add: read_cache_def json_dumps_def)

lemma get_tle_second_call:
  assumes "get_tle self net norad_id w = (Inr data, w1)"
  shows "get_tle self net2 norad_id w1 = (Inr data, w1)"
proof (cases "read_cache w norad_id")
  case (Some d)
  then have "get_tle self net norad_id w = (Inr d, w)" by (rule get_tle_hit)
  then have "d = data" "w1 = w" using assms by simp_all
  then show ?thesis using Some by (simp add: get_tle_hit)
next
  case None
  from get_tle_miss [OF None, of self net] obtain k where
    c: "(case attempt_result self (net (requests w + k)) of
          Inr data \<Rightarrow>
            get_tle self net norad_id w =
              (Inr data, \<lparr>cache = (cache w)(norad_id \<mapsto> json_dumps data),
                          requests = requests w + k + 1,
                          events = events w @ retries (tle_url self norad_id) 1 k
                                     @ live_fetch self norad_id\<rparr>)
        | Inl e \<Rightarrow>
            k = 4 \<and>
            get_tle self net norad_id w =
              (Inl (RetryError e), \<lparr>cache = cache w, requests = requests w + k + 1,
                 events = events w @ retries (tle_url self norad_id) 1 k
                            @ [HttpGet (tle_url self norad_id)]\<rparr>))"
    by blast
  then have "read_cache w1 norad_id = Some data"
    using assms by (auto simp: read_cache_written split: sum.splits)
  then show ?thesis by (rule get_tle_hit)
qed

lemma get_tle_same_outcome:
  assumes w: "read_cache w norad_id = None" and v: "read_cache v norad_id = None"
    and rq: "requests v = requests w" and ev: "events v = events w"
  shows "fst (get_tle self net norad_id v) = fst (get_tle self net norad_id w)
       \<and> requests (snd (get_tle self net norad_id v)) = requests (snd (get_tle self net norad_id w))
       \<and> events (snd (get_tle self net norad_id v)) = events (snd (get_tle self net norad_id w))
       \<and> requests w < requests (snd (get_tle self net norad_id w))"
proof -
  let ?url = "tle_url self norad_id"
  let ?P = "\<lambda>u k. (\<forall>i<k. \<exists>e. attempt_result self (net (requests w + i)) = Inl e)
     \<and> (case attempt_result self (net (requests w + k)) of
          Inr data \<Rightarrow>
            get_tle self net norad_id u =
              (Inr data, \<lparr>cache = (cache u)(norad_id \<mapsto> json_dumps data),
                          requests = requests w + k + 1,
                          events = events w @ retries ?url 1 k @ live_fetch self norad_id\<rparr>)
        | Inl e \<Rightarrow>
            k = 4 \<and>
            get_tle self net norad_id u =
              (Inl (RetryError e), \<lparr>cache = cache u, requests = requests w + k + 1,
                 events = events w @ retries ?url 1 k @ [HttpGet ?url]\<rparr>))"
  obtain k where k: "k \<le> 4" "?P w k"
    using get_tle_miss [OF w, of self net] by blast
  obtain j where j: "j \<le> 4" "?P v j"
    using get_tle_miss [OF v, of self net] unfolding rq ev by blast
  have "j = k"
  proof (rule ccontr)
    assume "j \<noteq> k"
    then consider "j < k" | "k < j" by linarith
    then show False
    proof cases
      case 1
      then obtain e where "attempt_result self (net (requests w + j)) = Inl e"
        using k(2) by blast
      then have "j = 4" using j(2) by simp
      then show False using 1 k(1) by simp
    next
      case 2
      then obtain e where "attempt_result self (net (requests w + k)) = Inl e"
        using j(2) by blast
      then have "k = 4" using k(2) by simp
      then show False using 2 j(1) by simp
    qed
  qed
  then show ?thesis
    using k(2) j(2) by (cases "attempt_result self (net (requests w + k))") simp_all
qed

section \<open>Claims about the retrieval client\<close>

text \<open>
  C1. When the cache entry of an identifier exists and parses, \<open>get_tle\<close> returns it
  and leaves the world as it was: no request, no sleep, no retry. A call that returned
  a payload is followed, whatever the network then does, by a call that returns the
  same payload and changes nothing. When the entry exists and does not parse, the call
  behaves as if the entry were absent: same result, same events, and at least one
  request is sent.
\<close>

theorem get_tle_cache_hit_no_network:
  "(read_cache w norad_id = Some data \<longrightarrow> get_tle self net norad_id w = (Inr data, w))
   \<and> (get_tle self net norad_id w = (Inr data, w1) \<longrightarrow>
        get_tle self net2 norad_id w1 = (Inr data, w1))
   \<and> (cache w norad_id = Some txt \<and> json_loads txt = None \<longrightarrow>
        fst (get_tle self net norad_id w)
          = fst (get_tle self net norad_id (w\<lparr>cache := (cache w)(norad_id := None)\<rparr>))
        \<and> events (snd (get_tle self net norad_id w))
          = events (snd (get_tle self net norad_id (w\<lparr>cache := (cache w)(norad_id := None)\<rparr>)))
        \<and> requests w < requests (snd (get_tle self net norad_id w)))"
proof (intro conjI impI)
  assume "read_cache w norad_id = Some data"
  then show "get_tle self net norad_id w = (Inr data, w)" by (rule get_tle_hit)
next
  assume "get_tle self net norad_id w = (Inr data, w1)"
  then show "get_tle self net2 norad_id w1 = (Inr data, w1)" by (rule get_tle_second_call)
next
  assume a: "cache w norad_id = Some txt \<and> json_loads txt = None"
  let ?v = "w\<lparr>cache := (cache w)(norad_id := None)\<rparr>"
  have w: "read_cache w norad_id = None" using a by (simp add: read_cache_def)
  have v: "read_cache ?v norad_id = None" by (simp add: read_cache_def)
  from get_tle_same_outcome [OF v w, of self net]
  show "fst (get_tle self net norad_id w) = fst (get_tle self net norad_id ?v)"
    and "events (snd (get_tle self net norad_id w)) = events (snd (get_tle self net norad_id ?v))"
    by simp_all
  from get_tle_same_outcome [OF w w, of self net]
  show "requests w < requests (snd (get_tle self net norad_id w))" by simp
qed

theorem get_tle_cache_hit_no_network_witness:
  "read_cache warm_world 25544 = Some iss_payload
   \<and> get_tle (default_client ''KEY'') failing 25544 warm_world = (Inr iss_payload, warm_world)
   \<and> cache corrupt_world 25544 = Some (Unparseable ''{ info: '')
   \<and> fst (get_tle (default_client ''KEY'') answering 25544 corrupt_world)
       = fst (get_tle (default_client ''KEY'') answering 25544
                (corrupt_world\<lparr>cache := (cache corrupt_world)(25544 := None)\<rparr>))
   \<and> fst (get_tle (default_client ''KEY'') answering 25544 corrupt_world) = Inr iss_payload"
proof -
  have h1: "read_cache warm_world 25544 = Some iss_payload"
    by (simp add: read_cache_def warm_world_def)
  have h2: "cache corrupt_world 25544 = Some (Unparseable ''{ info: '')
              \<and> json_loads (Unparseable ''{ info: '') = None"
    by (simp add: corrupt_world_def)
  have h3: "fst (get_tle (default_client ''KEY'') answering 25544 corrupt_world) = Inr iss_payload"
    by (simp add: get_tle_def retrying.simps get_tle_body_def read_cache_def corrupt_world_def
          answering_def default_client_def N2YOClient_def Let_def)
  show ?thesis
    using h1 h2 h3
      get_tle_cache_hit_no_network [of warm_world 25544 iss_payload "default_client ''KEY''" failing
        warm_world failing "Unparseable ''{ info: ''"]
      get_tle_cache_hit_no_network [of corrupt_world 25544 iss_payload "default_client ''KEY''" answering
        corrupt_world answering "Unparseable ''{ info: ''"]
    by simp
qed

text \<open>
  C2, as amended. \<open>get_tle\<close> sends at most five requests, one per attempt. The
  backoff sleeps of a call are the first of 1, 2, 4, 8 seconds, one fewer than its
  attempts: the wait after attempt \<open>n\<close> is \<open>2 ^ (n - 1)\<close> capped at 60, and no wait
  follows the fifth attempt. A call that fails has made five attempts that all failed,
  has slept 1, 2, 4 and 8 seconds between them, and raises \<open>RetryError\<close> with the
  error of the fifth. A call that finds a usable cache entry changes nothing, so the
  backoff is only around the network path.
\<close>

theorem get_tle_retry_policy:
  "requests (snd (get_tle self net norad_id w)) \<le> requests w + 5
   \<and> retry_sleeps (events (snd (get_tle self net norad_id w)))
       = retry_sleeps (events w)
         @ take (requests (snd (get_tle self net norad_id w)) - requests w - 1) [1, 2, 4, 8]
   \<and> (fst (get_tle self net norad_id w) = Inl (RetryError e) \<longrightarrow>
        requests (snd (get_tle self net norad_id w)) = requests w + 5
        \<and> (\<forall>i<4. \<exists>e'. attempt_result self (net (requests w + i)) = Inl e')
        \<and> attempt_result self (net (requests w + 4)) = Inl e
        \<and> retry_sleeps (events (snd (get_tle self net norad_id w)))
            = retry_sleeps (events w) @ [1, 2, 4, 8])
   \<and> (read_cache w norad_id \<noteq> None \<longrightarrow> snd (get_tle self net norad_id w) = w)
   \<and> wait_exponential n = (if 2 ^ (n - 1) \<le> (60 :: int) then 2 ^ (n - 1) else 60)"
proof (cases "read_cache w norad_id")
  case (Some d)
  then have "get_tle self net norad_id w = (Inr d, w)" by (rule get_tle_hit)
  then show ?thesis using Some by (simp add: wait_exponential_eq)
next
  case None
  let ?url = "tle_url self norad_id"
  from get_tle_miss [OF None, of self net] obtain k where k: "k \<le> 4"
    and f: "\<forall>i<k. \<exists>e. attempt_result self (net (requests w + i)) = Inl e"
    and c: "(case attempt_result self (net (requests w + k)) of
          Inr data \<Rightarrow>
            get_tle self net norad_id w =
              (Inr data, \<lparr>cache = (cache w)(norad_id \<mapsto> json_dumps data),
                          requests = requests w + k + 1,
                          events = events w @ retries ?url 1 k @ live_fetch self norad_id\<rparr>)
        | Inl e \<Rightarrow>
            k = 4 \<and>
            get_tle self net norad_id w =
              (Inl (RetryError e), \<lparr>cache = cache w, requests = requests w + k + 1,
                 events = events w @ retries ?url 1 k @ [HttpGet ?url]\<rparr>))"
    by blast
  have s: "retry_sleeps (retries ?url 1 k) = take k [1, 2, 4, 8]"
    using wait_schedule [OF k] by (simp add: retry_sleeps_retries)
  show ?thesis
  proof (cases "attempt_result self (net (requests w + k))")
    case (Inr data)
    then have g: "get_tle self net norad_id w =
              (Inr data, \<lparr>cache = (cache w)(norad_id \<mapsto> json_dumps data),
                          requests = requests w + k + 1,
                          events = events w @ retries ?url 1 k @ live_fetch self norad_id\<rparr>)"
      using c by simp
    show ?thesis
      unfolding g using k None s
      by (simp add: retry_sleeps_append live_fetch_def wait_exponential_eq)
  next
    case (Inl e')
    then have k4: "k = 4" and g: "get_tle self net norad_id w =
              (Inl (RetryError e'), \<lparr>cache = cache w, requests = requests w + k + 1,
                 events = events w @ retries ?url 1 k @ [HttpGet ?url]\<rparr>)"
      using c by simp_all
    show ?thesis
      unfolding g using k4 None s f Inl
      by (simp add: retry_sleeps_append wait_exponential_eq)
  qed
qed

theorem get_tle_retry_policy_witness:
  "fst (get_tle (default_client ''KEY'') failing 25544 empty_world) = Inl (RetryError RequestException)
   \<and> requests (snd (get_tle (default_client ''KEY'') failing 25544 empty_world)) = 5
   \<and> attempt_result (default_client ''KEY'') (failing 4) = Inl RequestException
   \<and> retry_sleeps (events (snd (get_tle (default_client ''KEY'') failing 25544 empty_world)))
       = [1, 2, 4, 8]"
proof -
  have h: "fst (get_tle (default_client ''KEY'') failing 25544 empty_world)
             = Inl (RetryError RequestException)"
    by (simp add: get_tle_def retrying.simps get_tle_body_def read_cache_def empty_world_def
          failing_def stop_after_attempt_def Let_def)
  have e: "requests empty_world = 0" "retry_sleeps (events empty_world) = []"
    by (simp_all add: empty_world_def)
  show ?thesis
    using h e
      get_tle_retry_policy [of "default_client ''KEY''" failing 25544 empty_world RequestException 1]
    by simp
qed

text \<open>
  C2 as stated lists five backoff sleeps (1, 2, 4, 8, 16 seconds). With five attempts
  there are four: when every request fails the sleeps are 1, 2, 4, 8 and no sleep of
  16 seconds occurs.
\<close>

theorem backoff_sequence_counterexample:
  "fst (get_tle (default_client ''KEY'') failing 25544 empty_world) = Inl (RetryError RequestException)
   \<and> retry_sleeps (events (snd (get_tle (default_client ''KEY'') failing 25544 empty_world)))
       = [1, 2, 4, 8]
   \<and> retry_sleeps (events (snd (get_tle (default_client ''KEY'') failing 25544 empty_world)))
       \<noteq> [1, 2, 4, 8, 16]
   \<and> RetrySleep 16 \<notin> set (events (snd (get_tle (default_client ''KEY'') failing 25544 empty_world)))"
  by (simp add: get_tle_def retrying.simps get_tle_body_def read_cache_def empty_world_def
        failing_def stop_after_attempt_def wait_exponential_def Let_def)

text \<open>
  C6. The default politeness interval is 0.25 seconds. A live fetch that succeeds at
  the first attempt sends the request, sleeps the interval, writes the payload to the
  cache and returns it. In any call the politeness sleep happens once when the call
  returns a payload it fetched, and not otherwise (never after a cache hit, never in a
  failed call); the cache is the old cache with the payload stored when the call
  returns a payload it fetched, and the old cache otherwise; and a fetched payload is
  returned right after the request, the sleep and the write, in this order. A fetch
  succeeds only with a politeness interval that is not negative.
\<close>

theorem get_tle_polite_delay_and_persist:
  "polite_delay_seconds (default_client key) = 0.25
   \<and> (read_cache w norad_id = None \<and> attempt_result self (net (requests w)) = Inr data \<longrightarrow>
        get_tle self net norad_id w =
          (Inr data, \<lparr>cache = (cache w)(norad_id \<mapsto> json_dumps data),
                      requests = Suc (requests w),
                      events = events w @ [HttpGet (tle_url self norad_id),
                                           TimeSleep (polite_delay_seconds self),
                                           CacheWrite norad_id]\<rparr>))
   \<and> polite_sleeps (events (snd (get_tle self net norad_id w)))
       = polite_sleeps (events w)
         @ (case fst (get_tle self net norad_id w) of
              Inr d \<Rightarrow> if read_cache w norad_id = None then [polite_delay_seconds self] else []
            | Inl e \<Rightarrow> [])
   \<and> cache (snd (get_tle self net norad_id w))
       = (case fst (get_tle self net norad_id w) of
            Inr d \<Rightarrow> if read_cache w norad_id = None then (cache w)(norad_id \<mapsto> json_dumps d)
                      else cache w
          | Inl e \<Rightarrow> cache w)
   \<and> (read_cache w norad_id = None \<and> fst (get_tle self net norad_id w) = Inr data \<longrightarrow>
        (\<exists>k\<le>4. events (snd (get_tle self net norad_id w))
                   = events w @ retries (tle_url self norad_id) 1 k @ live_fetch self norad_id))
   \<and> (attempt_result self r = Inr data \<longrightarrow> 0 \<le> polite_delay_seconds self)"
proof -
  let ?url = "tle_url self norad_id"
  have d: "polite_delay_seconds (default_client key) = 0.25"
    by (simp add: default_client_def N2YOClient_def)
  have p: "attempt_result self r = Inr data \<longrightarrow> 0 \<le> polite_delay_seconds self"
    by (auto simp: attempt_result_def split: http_result.splits option.splits if_splits)
  show ?thesis
  proof (cases "read_cache w norad_id")
    case (Some d')
    then have "get_tle self net norad_id w = (Inr d', w)" by (rule get_tle_hit)
    then show ?thesis using Some d p by simp
  next
    case None
    from get_tle_miss [OF None, of self net] obtain k where k: "k \<le> 4"
      and f: "\<forall>i<k. \<exists>e. attempt_result self (net (requests w + i)) = Inl e"
      and c: "(case attempt_result self (net (requests w + k)) of
            Inr data \<Rightarrow>
              get_tle self net norad_id w =
                (Inr data, \<lparr>cache = (cache w)(norad_id \<mapsto> json_dumps data),
                            requests = requests w + k + 1,
                            events = events w @ retries ?url 1 k @ live_fetch self norad_id\<rparr>)
          | Inl e \<Rightarrow>
              k = 4 \<and>
              get_tle self net norad_id w =
                (Inl (RetryError e), \<lparr>cache = cache w, requests = requests w + k + 1,
                   events = events w @ retries ?url 1 k @ [HttpGet ?url]\<rparr>))"
      by blast
    have first: "attempt_result self (net (requests w)) = Inr data \<longrightarrow>
        get_tle self net norad_id w =
          (Inr data, \<lparr>cache = (cache w)(norad_id \<mapsto> json_dumps data),
                      requests = Suc (requests w),
                      events = events w @ [HttpGet ?url, TimeSleep (polite_delay_seconds self),
                                           CacheWrite norad_id]\<rparr>)"
    proof
      assume a: "attempt_result self (net (requests w)) = Inr data"
      have "k = 0"
      proof (rule ccontr)
        assume "k \<noteq> 0"
        then have "0 < k" by simp
        then obtain e where "attempt_result self (net (requests w + 0)) = Inl e"
          using f by blast
        then show False using a by simp
      qed
      then show "get_tle self net norad_id w =
          (Inr data, \<lparr>cache = (cache w)(norad_id \<mapsto> json_dumps data),
                      requests = Suc (requests w),
                      events = events w @ [HttpGet ?url, TimeSleep (polite_delay_seconds self),
                                           CacheWrite norad_id]\<rparr>)"
        using c a by (simp add: retries_def live_fetch_def)
    qed
    have ps: "polite_sleeps (events (snd (get_tle self net norad_id w)))
       = polite_sleeps (events w)
         @ (case fst (get_tle self net norad_id w) of
              Inr d \<Rightarrow> if read_cache w norad_id = None then [polite_delay_seconds self] else []
            | Inl e \<Rightarrow> [])"
      using c None
      by (cases "attempt_result self (net (requests w + k))")
         (simp_all add: polite_sleeps_append polite_sleeps_retries live_fetch_def)
    have ch: "cache (snd (get_tle self net norad_id w))
       = (case fst (get_tle self net norad_id w) of
            Inr d \<Rightarrow> if read_cache w norad_id = None then (cache w)(norad_id \<mapsto> json_dumps d)
                      else cache w
          | Inl e \<Rightarrow> cache w)"
      using c None
      by (cases "attempt_result self (net (requests w + k))") simp_all
    have ev: "read_cache w norad_id = None \<and> fst (get_tle self net norad_id w) = Inr data \<longrightarrow>
        (\<exists>k\<le>4. events (snd (get_tle self net norad_id w))
                   = events w @ retries ?url 1 k @ live_fetch self norad_id)"
    proof (cases "attempt_result self (net (requests w + k))")
      case (Inl e')
      then show ?thesis using c by simp
    next
      case (Inr d')
      then have "events (snd (get_tle self net norad_id w))
                   = events w @ retries ?url 1 k @ live_fetch self norad_id"
        using c by simp
      then show ?thesis using k by blast
    qed
    show ?thesis
      using d first ps ch ev p by (intro conjI) (use None in blast)+
  qed
qed

theorem get_tle_polite_delay_and_persist_witness:
  "fst (get_tle (default_client ''KEY'') flaky 25544 empty_world) = Inr iss_payload
   \<and> read_cache empty_world 25544 = None
   \<and> polite_sleeps (events (snd (get_tle (default_client ''KEY'') flaky 25544 empty_world))) = [0.25]
   \<and> cache (snd (get_tle (default_client ''KEY'') flaky 25544 empty_world)) 25544
       = Some (json_dumps iss_payload)
   \<and> events (snd (get_tle (default_client ''KEY'') flaky 25544 empty_world))
       = [HttpGet (tle_url (default_client ''KEY'') 25544), RetrySleep 1,
          HttpGet (tle_url (default_client ''KEY'') 25544), RetrySleep 2,
          HttpGet (tle_url (default_client ''KEY'') 25544), TimeSleep 0.25, CacheWrite 25544]"
proof -
  have h1: "fst (get_tle (default_client ''KEY'') flaky 25544 empty_world) = Inr iss_payload"
    by (simp add: get_tle_def retrying.simps get_tle_body_def read_cache_def empty_world_def
          flaky_def stop_after_attempt_def default_client_def N2YOClient_def Let_def)
  have h2: "read_cache empty_world 25544 = None"
    by (simp add: read_cache_def empty_world_def)
  have h3: "events (snd (get_tle (default_client ''KEY'') flaky 25544 empty_world))
       = [HttpGet (tle_url (default_client ''KEY'') 25544), RetrySleep 1,
          HttpGet (tle_url (default_client ''KEY'') 25544), RetrySleep 2,
          HttpGet (tle_url (default_client ''KEY'') 25544), TimeSleep 0.25, CacheWrite 25544]"
    by (simp add: get_tle_def retrying.simps get_tle_body_def read_cache_def empty_world_def
          flaky_def stop_after_attempt_def wait_exponential_def Let_def)
       (simp add: default_client_def N2YOClient_def)
  have h4: "polite_sleeps (events empty_world) = []" "cache empty_world = (\<lambda>_. None)"
    by (simp_all add: empty_world_def)
  from get_tle_polite_delay_and_persist
         [of "''KEY''" empty_world 25544 "default_client ''KEY''" flaky iss_payload "flaky 2"]
  have "polite_sleeps (events (snd (get_tle (default_client ''KEY'') flaky 25544 empty_world))) = [0.25]"
    and "cache (snd (get_tle (default_client ''KEY'') flaky 25544 empty_world)) 25544
           = Some (json_dumps iss_payload)"
    using h1 h2 h4 by simp_all
  then show ?thesis
    using h1 h2 h3 by simp
qed

section \<open>Claims about the orbital element deriver\<close>

lemma parse_tle_fields_not_str:
  "\<not> isinstance_str x \<Longrightarrow> parse_tle_fields lib x = Inr []"
  by (simp add: parse_tle_fields_def)

lemma parse_tle_fields_str:
  "parse_tle_fields lib (PyStr s) =
     (if length (nonblank_lines s) < 2 then Inr []
      else
        (case twoline2rv lib (nonblank_lines s ! 0) (nonblank_lines s ! 1) of
           None \<Rightarrow> Inr []
         | Some sat \<Rightarrow>
             (case uncaught lib sat of
                Some e \<Rightarrow> Inl e
              | None \<Rightarrow> Inr (map (\<lambda>k. (k, feature lib sat k)) feature_keys))))"
proof (cases "s = []")
  case True
  have "nonblank_lines [] = []" by (simp add: nonblank_lines_def splitlines_def)
  then show ?thesis using True by (simp add: parse_tle_fields_def)
next
  case False
  then show ?thesis by (simp add: parse_tle_fields_def Let_def)
qed

text \<open>
  C4. \<open>parse_tle_fields\<close> returns the empty feature set, and raises nothing, for the
  empty string, for \<open>None\<close> and every other input that is not a string, for a
  string with fewer than two non-blank lines (a single line, for one), and for a string
  whose first two non-blank lines the TLE parser rejects. A feature set it returns is
  either empty or has every key; and it is non-empty only for a string with two
  non-blank lines that the parser accepts.
\<close>

theorem parse_tle_fields_malformed_is_empty:
  "parse_tle_fields lib (PyStr []) = Inr []
   \<and> parse_tle_fields lib PyNone = Inr []
   \<and> parse_tle_fields lib (PyStr ''single line'') = Inr []
   \<and> (\<not> isinstance_str x \<longrightarrow> parse_tle_fields lib x = Inr [])
   \<and> (length (nonblank_lines s) < 2 \<longrightarrow> parse_tle_fields lib (PyStr s) = Inr [])
   \<and> (twoline2rv lib (nonblank_lines s ! 0) (nonblank_lines s ! 1) = None \<longrightarrow>
        parse_tle_fields lib (PyStr s) = Inr [])
   \<and> (parse_tle_fields lib x = Inr d \<longrightarrow> d = [] \<or> map fst d = feature_keys)
   \<and> (parse_tle_fields lib x = Inr d \<and> d \<noteq> [] \<longrightarrow>
        (\<exists>t sat. x = PyStr t \<and> 2 \<le> length (nonblank_lines t)
           \<and> twoline2rv lib (nonblank_lines t ! 0) (nonblank_lines t ! 1) = Some sat))"
proof (intro conjI impI)
  show "parse_tle_fields lib (PyStr []) = Inr []"
    by (simp add: parse_tle_fields_def)
  show "parse_tle_fields lib PyNone = Inr []"
    by (simp add: parse_tle_fields_def)
  have "length (nonblank_lines ''single line'') < 2" by code_simp
  then show "parse_tle_fields lib (PyStr ''single line'') = Inr []"
    by (simp add: parse_tle_fields_str)
next
  assume "\<not> isinstance_str x"
  then show "parse_tle_fields lib x = Inr []" by (rule parse_tle_fields_not_str)
next
  assume "length (nonblank_lines s) < 2"
  then show "parse_tle_fields lib (PyStr s) = Inr []" by (simp add: parse_tle_fields_str)
next
  assume "twoline2rv lib (nonblank_lines s ! 0) (nonblank_lines s ! 1) = None"
  then show "parse_tle_fields lib (PyStr s) = Inr []" by (simp add: parse_tle_fields_str)
next
  assume a: "parse_tle_fields lib x = Inr d"
  show "d = [] \<or> map fst d = feature_keys"
  proof (cases x)
    case (PyStr t)
    then show ?thesis
      using a by (auto simp: parse_tle_fields_str o_def split: if_splits option.splits)
  qed (use a in \<open>simp_all add: parse_tle_fields_not_str\<close>)
next
  assume a: "parse_tle_fields lib x = Inr d \<and> d \<noteq> []"
  show "\<exists>t sat. x = PyStr t \<and> 2 \<le> length (nonblank_lines t)
           \<and> twoline2rv lib (nonblank_lines t ! 0) (nonblank_lines t ! 1) = Some sat"
  proof (cases x)
    case (PyStr t)
    then show ?thesis
      using a by (auto simp: parse_tle_fields_str split: if_splits option.splits)
  qed (use a in \<open>auto simp add: parse_tle_fields_not_str\<close>)
qed

theorem parse_tle_fields_malformed_is_empty_witness:
  "\<not> isinstance_str PyNaN
   \<and> parse_tle_fields toy_lib PyNaN = Inr []
   \<and> length (nonblank_lines ''   '') < 2
   \<and> parse_tle_fields toy_lib (PyStr ''   '') = Inr []
   \<and> twoline2rv toy_lib (nonblank_lines garbage_tle ! 0) (nonblank_lines garbage_tle ! 1) = None
   \<and> parse_tle_fields toy_lib (PyStr garbage_tle) = Inr []
   \<and> map fst (projr (parse_tle_fields toy_lib (PyStr iss_tle))) = feature_keys"
proof -
  have h1: "\<not> isinstance_str PyNaN" by simp
  have h2: "length (nonblank_lines ''   '') < 2" by code_simp
  have h3: "twoline2rv toy_lib (nonblank_lines garbage_tle ! 0) (nonblank_lines garbage_tle ! 1) = None"
    by code_simp
  have h4: "parse_tle_fields toy_lib (PyStr iss_tle)
              = Inr (projr (parse_tle_fields toy_lib (PyStr iss_tle)))"
    "projr (parse_tle_fields toy_lib (PyStr iss_tle)) \<noteq> []"
    by code_simp+
  from parse_tle_fields_malformed_is_empty [of toy_lib PyNaN "''   ''"]
  have a: "parse_tle_fields toy_lib PyNaN = Inr []" "parse_tle_fields toy_lib (PyStr ''   '') = Inr []"
    using h1 h2 by blast+
  from parse_tle_fields_malformed_is_empty [of toy_lib _ garbage_tle]
  have b: "parse_tle_fields toy_lib (PyStr garbage_tle) = Inr []"
    using h3 by blast
  from parse_tle_fields_malformed_is_empty
         [of toy_lib "PyStr iss_tle" _ "projr (parse_tle_fields toy_lib (PyStr iss_tle))"]
  have c: "map fst (projr (parse_tle_fields toy_lib (PyStr iss_tle))) = feature_keys"
    using h4 by blast
  show ?thesis
    using h1 h2 h3 a b c by blast
qed

end
